theory Spec2Isabelle
  imports Main "HOL-Library.Sublist"
begin

section \<open>Python strings\<close>

text \<open>
  A Python \<open>str\<close> is modelled as a \<open>string\<close> whose characters are the code points
  below 256. \<open>lower\<close> is \<open>str.lower\<close> and \<open>strip\<close> is \<open>str.strip()\<close> on that range:
  the capital letters are \<open>A\<close> to \<open>Z\<close> and U+00C0 to U+00DE without U+00D7, and the
  white space characters are the twelve code points listed in \<open>isspace\<close>.
\<close>

definition lower_char :: "char \<Rightarrow> char" where
  "lower_char c =
     (let n = (of_char c :: nat)
      in if (65 \<le> n \<and> n \<le> 90) \<or> (192 \<le> n \<and> n \<le> 222 \<and> n \<noteq> 215)
         then char_of (n + 32) else c)"

definition lower :: "string \<Rightarrow> string" where
  "lower s = map lower_char s"

definition isspace :: "char \<Rightarrow> bool" where
  "isspace c = ((of_char c :: nat) \<in> {9, 10, 11, 12, 13, 28, 29, 30, 31, 32, 133, 160})"

definition strip :: "string \<Rightarrow> string" where
  "strip s = rev (dropWhile isspace (rev (dropWhile isspace s)))"

text \<open>\<open>contains pat s\<close> is Python's \<open>pat in s\<close> on strings.\<close>

fun contains :: "string \<Rightarrow> string \<Rightarrow> bool" where
  "contains pat [] = (pat = [])"
| "contains pat (c # cs) = (prefix pat (c # cs) \<or> contains pat cs)"

text \<open>\<open>join sep xs\<close> is \<open>sep.join(xs)\<close>.\<close>

fun join :: "string \<Rightarrow> string list \<Rightarrow> string" where
  "join sep [] = []"
| "join sep [x] = x"
| "join sep (x # y # ys) = x @ sep @ join sep (y # ys)"

section \<open>The element tree of BeautifulSoup\<close>

text \<open>
  The tree that \<open>BeautifulSoup(html_text, "html.parser")\<close> returns: a tag has a name, its
  attributes (a dict, read with \<open>map_of\<close>) and its children; \<open>NavigableString\<close> is a
  text node (CData included); \<open>Comment\<close> stands for the string nodes that \<open>get_text\<close>
  leaves out (comments, doctype, declarations, processing instructions). The soup object
  itself is the tag named \<open>[document]\<close>; it is the \<open>.parent\<close> of the top-level nodes.
\<close>

datatype node =
    Tag string "(string \<times> string) list" "node list"
  | NavigableString string
  | Comment string

text \<open>
  \<open>el.get_text(sep, strip=True)\<close>: every text node below \<open>el\<close> in document order,
  stripped, the empty ones dropped, joined with \<open>sep\<close>.
\<close>

fun all_strings :: "node \<Rightarrow> string list" where
  "all_strings (Tag n as cs) = concat (map all_strings cs)"
| "all_strings (NavigableString s) = (if strip s = [] then [] else [strip s])"
| "all_strings (Comment s) = []"

definition get_text :: "string \<Rightarrow> node \<Rightarrow> string" where
  "get_text sep el = join sep (all_strings el)"

text \<open>\<open>a["href"]\<close>: the attribute, \<open>None\<close> standing for the KeyError of a missing one.\<close>

fun href_of :: "node \<Rightarrow> string option" where
  "href_of (Tag n as cs) = map_of as ''href''"
| "href_of _ = None"

fun is_anchor :: "node \<Rightarrow> bool" where
  "is_anchor (Tag n as cs) = (n = ''a'' \<and> map_of as ''href'' \<noteq> None)"
| "is_anchor _ = False"

text \<open>
  \<open>el.find_all("a", href=True)\<close>: the descendants of \<open>el\<close> in document order that are
  \<open>a\<close> tags carrying an \<open>href\<close> attribute. The tree has no parent pointers, so each
  anchor comes with what \<open>a.parent\<close> reads at line 73.
\<close>

fun find_all_a :: "node \<Rightarrow> (node \<times> node option) list" where
  "find_all_a (Tag n as cs) =
     concat (map (\<lambda>c. (if is_anchor c then [(c, Some (Tag n as cs))] else []) @ find_all_a c) cs)"
| "find_all_a (NavigableString s) = []"
| "find_all_a (Comment s) = []"

section \<open>The libraries and the network\<close>

datatype error = RequestError | ParserError | ValueError | KeyError

text \<open>
  What the program calls and does not define. Each may raise, except \<open>charref_sub\<close>.
  \<^item> \<open>requests_get i url\<close>: the \<open>i\<close>-th request of the run,
    \<open>requests.get(url, ...)\<close> followed by \<open>raise_for_status()\<close> and \<open>.text\<close>;
  \<^item> \<open>html_parser\<close>: \<open>BeautifulSoup(html_text, "html.parser")\<close>;
  \<^item> \<open>urlparse_scheme\<close>: \<open>urlparse(site).scheme\<close>;
  \<^item> \<open>resolve\<close>: what \<open>urljoin\<close> does with a non-empty base and a non-empty reference;
  \<^item> \<open>charref_sub\<close>: what \<open>html.unescape\<close> does with a string that holds an ampersand.
\<close>

record libs =
  requests_get :: "nat \<Rightarrow> string \<Rightarrow> error + string"
  html_parser :: "string \<Rightarrow> error + node"
  urlparse_scheme :: "string \<Rightarrow> error + string"
  resolve :: "string \<Rightarrow> string \<Rightarrow> error + string"
  charref_sub :: "string \<Rightarrow> string"

text \<open>\<open>urllib.parse.urljoin\<close> opens with \<open>if not base: return url\<close> and
  \<open>if not url: return base\<close>.\<close>

definition urljoin :: "libs \<Rightarrow> string \<Rightarrow> string \<Rightarrow> error + string" where
  "urljoin L base ref =
     (if base = [] then Inr ref else if ref = [] then Inr base else resolve L base ref)"

text \<open>\<open>html.unescape\<close> opens with \<open>if '&' not in s: return s\<close>.\<close>

definition unescape :: "libs \<Rightarrow> string \<Rightarrow> string" where
  "unescape L s = (if CHR ''&'' \<notin> set s then s else charref_sub L s)"

section \<open>The extractor: \<open>find_php_links_on_html\<close>\<close>

record candidate =
  title :: string
  url :: string

definition MAX_LINKS_PER_SITE :: nat where
  "MAX_LINKS_PER_SITE = 200"

text \<open>Lines 68 to 70, and again 77 to 79: the title, the joined URL, the append.\<close>

definition append_match :: "libs \<Rightarrow> string \<Rightarrow> node \<Rightarrow> string \<Rightarrow> candidate list \<Rightarrow> error + candidate list" where
  "append_match L base_url a href matches =
     (let t = (if get_text '' '' a = [] then href else get_text '' '' a)
      in case urljoin L base_url href of
           Inl e \<Rightarrow> Inl e
         | Inr full \<Rightarrow> Inr (matches @ [\<lparr>title = unescape L t, url = full\<rparr>]))"

text \<open>The body of the loop of line 64, for one anchor.\<close>

fun loop_body :: "libs \<Rightarrow> string \<Rightarrow> node \<times> node option \<Rightarrow> candidate list \<Rightarrow> error + candidate list" where
  "loop_body L base_url (a, parent) matches =
     (case href_of a of
        None \<Rightarrow> Inl KeyError
      | Some href \<Rightarrow>
          (let txt = lower (get_text '' '' a)
           in if contains ''php'' txt \<or> contains ''php'' (lower href)
              then append_match L base_url a href matches
              else (case parent of
                      None \<Rightarrow> Inr matches
                    | Some p \<Rightarrow>
                        (let parent_text = lower (get_text '' '' p)
                         in if contains ''php'' parent_text
                            then append_match L base_url a href matches
                            else Inr matches))))"

fun match_loop :: "libs \<Rightarrow> string \<Rightarrow> (node \<times> node option) list \<Rightarrow> candidate list \<Rightarrow> error + candidate list" where
  "match_loop L base_url [] matches = Inr matches"
| "match_loop L base_url (ap # rest) matches =
     (case loop_body L base_url ap matches of
        Inl e \<Rightarrow> Inl e
      | Inr matches' \<Rightarrow> match_loop L base_url rest matches')"

text \<open>The loop of line 83, with its \<open>break\<close>.\<close>

fun dedupe_loop :: "candidate list \<Rightarrow> (string \<times> string) set \<Rightarrow> candidate list \<Rightarrow> candidate list" where
  "dedupe_loop [] seen deduped = deduped"
| "dedupe_loop (m # ms) seen deduped =
     (let key = (url m, title m);
          deduped' = (if key \<notin> seen then deduped @ [m] else deduped);
          seen' = (if key \<notin> seen then insert key seen else seen)
      in if length deduped' \<ge> MAX_LINKS_PER_SITE then deduped'
         else dedupe_loop ms seen' deduped')"

definition raw_matches :: "libs \<Rightarrow> string \<Rightarrow> string \<Rightarrow> error + candidate list" where
  "raw_matches L html_text base_url =
     (case html_parser L html_text of
        Inl e \<Rightarrow> Inl e
      | Inr soup \<Rightarrow> match_loop L base_url (find_all_a soup) [])"

definition find_php_links_on_html :: "libs \<Rightarrow> string \<Rightarrow> string \<Rightarrow> error + candidate list" where
  "find_php_links_on_html L html_text base_url =
     (case raw_matches L html_text base_url of
        Inl e \<Rightarrow> Inl e
      | Inr matches \<Rightarrow> Inr (dedupe_loop matches {} []))"

section \<open>Fetching: \<open>fetch_page\<close> and \<open>scrape_site\<close>\<close>

text \<open>\<open>fetch_page\<close> turns every exception of the request into \<open>None\<close>.\<close>

definition fetch_page :: "libs \<Rightarrow> nat \<Rightarrow> string \<Rightarrow> string option" where
  "fetch_page L i u =
     (case requests_get L i u of Inl e \<Rightarrow> None | Inr text \<Rightarrow> Some text)"

text \<open>\<open>if not html_text\<close> holds for \<open>None\<close> and for the empty string.\<close>

definition scrape_site :: "libs \<Rightarrow> nat \<Rightarrow> string \<Rightarrow> error + candidate list" where
  "scrape_site L i u =
     (case fetch_page L i u of
        None \<Rightarrow> Inr []
      | Some html_text \<Rightarrow>
          if html_text = [] then Inr [] else find_php_links_on_html L html_text u)"

section \<open>The runner: \<open>JobsApp.scrape_and_display\<close>\<close>

text \<open>
  The widgets the run writes: the rows of the results table, as
  \<open>add_result(title, site, url)\<close> appended them, and the status line. The progress
  texts, the refresh button and \<open>time.sleep\<close> are left out.
\<close>

datatype status = Idle | Scraping | Done nat

record gui =
  rows :: "(string \<times> string \<times> string) list"
  status :: status

text \<open>
  What one run leaves behind: the widgets, and with them the URLs it requested from the
  network in order (each call of \<open>scrape_site\<close> starts with the one request of
  \<open>fetch_page\<close>), whether the "No sites" warning was shown, and the exception that ended
  the worker thread, if any.
\<close>

record run = gui +
  fetched :: "string list"
  warned :: bool
  raised :: "error option"

text \<open>Lines 203 to 207 for the links of one site.\<close>

definition add_results :: "string \<Rightarrow> candidate list \<Rightarrow> (string \<times> string \<times> string) list" where
  "add_results site links =
     map (\<lambda>l. (if title l = [] then url l else title l, site, url l)) links"

text \<open>The loop of line 196; \<open>idx\<close> counts from 1.\<close>

fun sites_loop :: "libs \<Rightarrow> nat \<Rightarrow> string list \<Rightarrow> nat \<Rightarrow> run \<Rightarrow> run" where
  "sites_loop L idx [] total_count g = g\<lparr>status := Done total_count\<rparr>"
| "sites_loop L idx (site # rest) total_count g =
     (case urlparse_scheme L site of
        Inl e \<Rightarrow> g\<lparr>raised := Some e\<rparr>
      | Inr scheme \<Rightarrow>
          (let site' = (if scheme = [] then ''https://'' @ site else site);
               g' = g\<lparr>fetched := fetched g @ [site']\<rparr>
           in case scrape_site L idx site' of
                Inl e \<Rightarrow> g'\<lparr>raised := Some e\<rparr>
              | Inr links \<Rightarrow>
                  sites_loop L (idx + 1) rest (total_count + length links)
                    (g'\<lparr>rows := rows g' @ add_results site' links\<rparr>)))"

text \<open>
  \<open>sites\<close> is the list of line 186, the stripped non-empty lines of the text box, and
  \<open>g\<close> is the window as the previous run left it.
\<close>

definition scrape_and_display :: "libs \<Rightarrow> string list \<Rightarrow> gui \<Rightarrow> run" where
  "scrape_and_display L sites g =
     (if sites = []
      then \<lparr>rows = rows g, status = status g, fetched = [], warned = True, raised = None\<rparr>
      else sites_loop L 1 sites 0
             \<lparr>rows = [], status = Scraping, fetched = [], warned = False, raised = None\<rparr>)"

text \<open>The window before its first run.\<close>

definition idle :: gui where
  "idle = \<lparr>rows = [], status = Idle\<rparr>"

section \<open>The specification's notions\<close>

text \<open>
  Match rule A of the specification: the keyword is in the anchor's text or in its href,
  in any case. Match rule B: it is in the text of the element that holds the anchor.
\<close>

definition rule_A :: "node \<Rightarrow> bool" where
  "rule_A a =
     (contains ''php'' (lower (get_text '' '' a))
      \<or> (case href_of a of None \<Rightarrow> False | Some href \<Rightarrow> contains ''php'' (lower href)))"

definition rule_B :: "node option \<Rightarrow> bool" where
  "rule_B parent =
     (case parent of None \<Rightarrow> False | Some p \<Rightarrow> contains ''php'' (lower (get_text '' '' p)))"

definition matched :: "node \<times> node option \<Rightarrow> bool" where
  "matched ap = (rule_A (fst ap) \<or> rule_B (snd ap))"

text \<open>
  The whitespace-normalised visible text of the specification: the text nodes below the
  element in document order, written one after the other as a browser shows them, every
  run of white space turned into one space, and the ends trimmed. Rule A as the
  specification words it reads the keyword in that text. The program reads it in
  \<open>get_text(" ", strip=True)\<close>, which strips every text node and puts a space between
  two of them.
\<close>

fun raw_strings :: "node \<Rightarrow> string list" where
  "raw_strings (Tag n as cs) = concat (map raw_strings cs)"
| "raw_strings (NavigableString s) = [s]"
| "raw_strings (Comment s) = []"

fun split_ws :: "string \<Rightarrow> string \<Rightarrow> string list" where
  "split_ws cur [] = (if cur = [] then [] else [cur])"
| "split_ws cur (c # cs) =
     (if isspace c then (if cur = [] then split_ws [] cs else cur # split_ws [] cs)
      else split_ws (cur @ [c]) cs)"

definition visible_text :: "node \<Rightarrow> string" where
  "visible_text el = join '' '' (split_ws [] (concat (raw_strings el)))"

definition spec_rule_A :: "node \<Rightarrow> bool" where
  "spec_rule_A a =
     (contains ''php'' (lower (visible_text a))
      \<or> (case href_of a of None \<Rightarrow> False | Some href \<Rightarrow> contains ''php'' (lower href)))"

text \<open>
  The candidate of an anchor: its text, or the raw href when the text is empty, with the
  entities resolved, and the href joined against the base URL.
\<close>

definition candidate_of :: "libs \<Rightarrow> string \<Rightarrow> node \<Rightarrow> error + candidate" where
  "candidate_of L base_url a =
     (case href_of a of
        None \<Rightarrow> Inl KeyError
      | Some href \<Rightarrow>
          (case urljoin L base_url href of
             Inl e \<Rightarrow> Inl e
           | Inr full \<Rightarrow>
               Inr \<lparr>title = unescape L (if get_text '' '' a = [] then href else get_text '' '' a),
                    url = full\<rparr>))"

text \<open>
  Deduplication on the pair \<open>(url, title)\<close> that keeps the first occurrence and the
  order; the program's loop, which also truncates, is \<open>dedupe_loop\<close>.
\<close>

definition key_of :: "candidate \<Rightarrow> string \<times> string" where
  "key_of m = (url m, title m)"

fun dedupe_first :: "candidate list \<Rightarrow> candidate list" where
  "dedupe_first [] = []"
| "dedupe_first (m # ms) = m # dedupe_first (filter (\<lambda>x. key_of x \<noteq> key_of m) ms)"


definition norm_site :: "libs \<Rightarrow> string \<Rightarrow> string" where
  "norm_site L site = (if urlparse_scheme L site = Inr [] then ''https://'' @ site else site)"

definition site_ok :: "libs \<Rightarrow> nat \<times> string \<Rightarrow> bool" where
  "site_ok L p =
     (case urlparse_scheme L (snd p) of
        Inl e \<Rightarrow> False
      | Inr scheme \<Rightarrow>
          (case fetch_page L (fst p) (norm_site L (snd p)) of
             None \<Rightarrow> True
           | Some html_text \<Rightarrow>
               (case scrape_site L (fst p) (norm_site L (snd p)) of
                  Inl e \<Rightarrow> False
                | Inr ls \<Rightarrow> True)))"

definition site_links :: "libs \<Rightarrow> nat \<times> string \<Rightarrow> candidate list" where
  "site_links L p =
     (case fetch_page L (fst p) (norm_site L (snd p)) of
        None \<Rightarrow> []
      | Some html_text \<Rightarrow>
          (case scrape_site L (fst p) (norm_site L (snd p)) of Inl e \<Rightarrow> [] | Inr ls \<Rightarrow> ls))"

section \<open>Library behaviour for the worked examples\<close>

text \<open>
  A model of the \<open>html.parser\<close> tree builder on plain markup: start tags whose attributes
  are written \<open>name="value"\<close>, end tags, and text between them. An end tag closes the
  open elements up to the nearest open element of its name and is dropped when there is
  none; the end of the input closes what is still open. Comments, character references,
  unquoted values, void elements and script content are outside this model.
\<close>

datatype token = StartTag string "(string \<times> string) list" | EndTag string | Data string

datatype amode = Between | InName string | AfterEq string | InValue string string

fun attrs_scan :: "amode \<Rightarrow> string \<Rightarrow> (string \<times> string) list" where
  "attrs_scan m [] =
     (case m of Between \<Rightarrow> [] | InName k \<Rightarrow> [(lower k, [])]
      | AfterEq k \<Rightarrow> [(lower k, [])] | InValue k v \<Rightarrow> [(lower k, v)])"
| "attrs_scan m (c # cs) =
     (case m of
        Between \<Rightarrow>
          if isspace c then attrs_scan Between cs else attrs_scan (InName [c]) cs
      | InName k \<Rightarrow>
          if c = CHR ''='' then attrs_scan (AfterEq k) cs
          else if isspace c then (lower k, []) # attrs_scan Between cs
          else attrs_scan (InName (k @ [c])) cs
      | AfterEq k \<Rightarrow>
          if c = CHR 0x22 then attrs_scan (InValue k []) cs
          else attrs_scan (AfterEq k) cs
      | InValue k v \<Rightarrow>
          if c = CHR 0x22 then (lower k, v) # attrs_scan Between cs
          else attrs_scan (InValue k (v @ [c])) cs)"

definition tag_token :: "string \<Rightarrow> token" where
  "tag_token s =
     (if prefix ''/'' s then EndTag (lower (strip (drop 1 s)))
      else StartTag (lower (takeWhile (\<lambda>c. \<not> isspace c) s))
             (attrs_scan Between (dropWhile (\<lambda>c. \<not> isspace c) s)))"

definition data_token :: "string \<Rightarrow> token list" where
  "data_token buf = (if buf = [] then [] else [Data buf])"

text \<open>\<open>tokenize in_tag buf s\<close>: \<open>buf\<close> holds the text or the tag read so far.\<close>

fun tokenize :: "bool \<Rightarrow> string \<Rightarrow> string \<Rightarrow> token list" where
  "tokenize in_tag buf [] = (if in_tag then data_token (CHR ''<'' # buf) else data_token buf)"
| "tokenize in_tag buf (c # cs) =
     (if in_tag then
        (if c = CHR ''>'' then tag_token buf # tokenize False [] cs
         else tokenize True (buf @ [c]) cs)
      else
        (if c = CHR ''<'' then data_token buf @ tokenize True [] cs
         else tokenize False (buf @ [c]) cs))"

type_synonym frame = "string \<times> (string \<times> string) list \<times> node list"

fun close_top :: "frame list \<Rightarrow> frame list" where
  "close_top ((n, as, cs) # (n', as', cs') # st) = (n', as', cs' @ [Tag n as cs]) # st"
| "close_top st = st"

fun add_child :: "node \<Rightarrow> frame list \<Rightarrow> frame list" where
  "add_child x ((n, as, cs) # st) = (n, as, cs @ [x]) # st"
| "add_child x [] = []"

fun treebuild :: "token list \<Rightarrow> frame list \<Rightarrow> node" where
  "treebuild [] st =
     (case (close_top ^^ (length st - 1)) st of
        [(n, as, cs)] \<Rightarrow> Tag n as cs
      | _ \<Rightarrow> Tag ''[document]'' [] [])"
| "treebuild (StartTag n as # ts) st = treebuild ts ((n, as, []) # st)"
| "treebuild (Data s # ts) st = treebuild ts (add_child (NavigableString s) st)"
| "treebuild (EndTag n # ts) st =
     (if n \<in> set (map fst (butlast st))
      then treebuild ts ((close_top ^^ Suc (length (takeWhile (\<lambda>f. fst f \<noteq> n) st))) st)
      else treebuild ts st)"

definition plain_html_parser :: "string \<Rightarrow> error + node" where
  "plain_html_parser html_text =
     Inr (treebuild (tokenize False [] html_text) [(''[document]'', [], [])])"

text \<open>
  Reference resolution for an absolute-path reference against an http or https base: the
  base's scheme and authority followed by the reference. A reference of any other shape
  is returned as written, which is what \<open>urljoin\<close> does with an absolute URL; relative
  paths and dot segments are outside this model.
\<close>

definition origin :: "string \<Rightarrow> string" where
  "origin base =
     (if prefix ''https://'' base
      then ''https://'' @ takeWhile (\<lambda>c. c \<notin> set ''/?#'') (drop 8 base)
      else if prefix ''http://'' base
      then ''http://'' @ takeWhile (\<lambda>c. c \<notin> set ''/?#'') (drop 7 base)
      else [])"

definition resolve_abs_path :: "string \<Rightarrow> string \<Rightarrow> error + string" where
  "resolve_abs_path base ref =
     (if prefix ''/'' ref \<and> \<not> prefix ''//'' ref \<and> origin base \<noteq> []
      then Inr (origin base @ ref) else Inr ref)"

text \<open>
  The scheme that \<open>urlsplit\<close> finds: the text before the first colon when it starts with
  a letter and consists of letters, digits, \<open>+\<close>, \<open>-\<close> and \<open>.\<close>; otherwise none.
\<close>

definition scheme_char :: "char \<Rightarrow> bool" where
  "scheme_char c =
     (let n = (of_char c :: nat)
      in (97 \<le> n \<and> n \<le> 122) \<or> (65 \<le> n \<and> n \<le> 90) \<or> (48 \<le> n \<and> n \<le> 57)
         \<or> c \<in> set ''+-.'')"

definition is_alpha :: "char \<Rightarrow> bool" where
  "is_alpha c =
     (let n = (of_char c :: nat) in (97 \<le> n \<and> n \<le> 122) \<or> (65 \<le> n \<and> n \<le> 90))"

definition split_scheme :: "string \<Rightarrow> error + string" where
  "split_scheme u =
     (let s = takeWhile (\<lambda>c. c \<noteq> CHR '':'') u
      in if CHR '':'' \<in> set u \<and> s \<noteq> [] \<and> is_alpha (hd u) \<and> list_all scheme_char s
         then Inr (lower s) else Inr [])"

text \<open>
  The example page of the specification, the tree \<open>html.parser\<close> builds from it, and
  the candidates of its two anchors against the base \<open>https://jobs.test\<close>. The page
  is served at that address; no other address answers.
\<close>

definition example_page :: string where
  \<open>example_page = ''<a href="/job/1">Senior PHP Developer</a><a href="/job/2">Designer</a>''\<close>

definition example_soup :: node where
  "example_soup =
     Tag ''[document]'' []
       [Tag ''a'' [(''href'', ''/job/1'')] [NavigableString ''Senior PHP Developer''],
        Tag ''a'' [(''href'', ''/job/2'')] [NavigableString ''Designer'']]"

definition php_job :: candidate where
  "php_job = \<lparr>title = ''Senior PHP Developer'', url = ''https://jobs.test/job/1''\<rparr>"

definition designer_job :: candidate where
  "designer_job = \<lparr>title = ''Designer'', url = ''https://jobs.test/job/2''\<rparr>"

definition example_net :: "nat \<Rightarrow> string \<Rightarrow> error + string" where
  "example_net i u = (if u = ''https://jobs.test'' then Inr example_page else Inl RequestError)"

definition py :: libs where
  "py = \<lparr>requests_get = example_net, html_parser = plain_html_parser,
          urlparse_scheme = split_scheme, resolve = resolve_abs_path,
          charref_sub = (\<lambda>s. s)\<rparr>"

text \<open>
  A page of 201 anchors, all with the href \<open>/php\<close> and with the texts \<open>x\<close>, \<open>xx\<close>,
  \<open>xxx\<close> and so on, the tree \<open>html.parser\<close> builds from it, and the candidate of its
  \<open>i\<close>-th anchor against the base \<open>https://jobs.test\<close>.
\<close>

definition anchor_html :: "nat \<Rightarrow> string" where
  \<open>anchor_html i = ''<a href="/php">'' @ replicate (Suc i) (CHR ''x'') @ ''</a>''\<close>

definition big_page :: string where
  "big_page = concat (map anchor_html [0..<201])"

definition anchor_node :: "nat \<Rightarrow> node" where
  "anchor_node i =
     Tag ''a'' [(''href'', ''/php'')] [NavigableString (replicate (Suc i) (CHR ''x''))]"

definition big_soup :: node where
  "big_soup = Tag ''[document]'' [] (map anchor_node [0..<201])"

definition nth_candidate :: "nat \<Rightarrow> candidate" where
  "nth_candidate i = \<lparr>title = replicate (Suc i) (CHR ''x''), url = ''https://jobs.test/php''\<rparr>"

text \<open>A page whose one anchor has no text and an empty href, inside a paragraph that
  names the keyword, and the tree \<open>html.parser\<close> builds from it.\<close>

definition bare_anchor_page :: string where
  \<open>bare_anchor_page = ''<p>php<a href=""></a></p>''\<close>

definition bare_anchor :: node where
  "bare_anchor = Tag ''a'' [(''href'', [])] []"

definition bare_paragraph :: node where
  "bare_paragraph = Tag ''p'' [] [NavigableString ''php'', bare_anchor]"

definition bare_soup :: node where
  "bare_soup = Tag ''[document]'' [] [bare_paragraph]"

text \<open>
  The page of the first 200 of these anchors followed by the paragraph with the bare
  anchor, and its tree.
\<close>

definition cut_page :: string where
  "cut_page = concat (map anchor_html [0..<200]) @ bare_anchor_page"

definition cut_soup :: node where
  "cut_soup = Tag ''[document]'' [] (map anchor_node [0..<200] @ [bare_paragraph])"

text \<open>
  A page whose one anchor shows the keyword across two elements, its tree and its
  anchor.
\<close>

definition split_page :: string where
  \<open>split_page = ''<a href="/job/1">p<b>hp</b></a>''\<close>

definition split_anchor :: node where
  "split_anchor =
     Tag ''a'' [(''href'', ''/job/1'')] [NavigableString ''p'', Tag ''b'' [] [NavigableString ''hp'']]"

definition split_soup :: node where
  "split_soup = Tag ''[document]'' [] [split_anchor]"



text \<open>
  A world in which the parser raises on the page of one site: \<open>https://a.test\<close> serves
  a page the parser rejects, \<open>https://jobs.test\<close> serves the example page.
\<close>

definition rejecting_parser :: "string \<Rightarrow> error + node" where
  "rejecting_parser html_text =
     (if html_text = ''<![x y]>'' then Inl ParserError else plain_html_parser html_text)"

definition rejected_net :: "nat \<Rightarrow> string \<Rightarrow> error + string" where
  "rejected_net i u =
     (if u = ''https://a.test'' then Inr ''<![x y]>''
      else if u = ''https://jobs.test'' then Inr example_page
      else Inl RequestError)"

definition py_rejecting :: libs where
  "py_rejecting = py\<lparr>requests_get := rejected_net, html_parser := rejecting_parser\<rparr>"

text \<open>A world in which every request succeeds with an empty body.\<close>

definition py_empty_body :: libs where
  "py_empty_body = py\<lparr>requests_get := (\<lambda>i u. Inr [])\<rparr>"

section \<open>Facts about the deduplication\<close>

lemma key_of_fold: "(url m, title m) = key_of m"
  by (simp add: key_of_def)

lemma key_of_inject: "key_of x = key_of m \<Longrightarrow> x = m" for x m :: candidate
  by (cases x, cases m) (simp add: key_of_def)

lemma filter_key_insert:
  "filter (\<lambda>x. key_of x \<noteq> k) (filter (\<lambda>x. key_of x \<notin> S) ms)
     = filter (\<lambda>x. key_of x \<notin> insert k S) ms"
  by (induction ms) auto

text \<open>The loop from any state that has not reached the limit.\<close>

lemma dedupe_loop_spec:
  "length acc < MAX_LINKS_PER_SITE \<Longrightarrow>
   dedupe_loop ms S acc
     = take MAX_LINKS_PER_SITE (acc @ dedupe_first (filter (\<lambda>x. key_of x \<notin> S) ms))"
proof (induction ms arbitrary: S acc)
  case Nil
  then show ?case by simp
next
  case (Cons m ms)
  show ?case
  proof (cases "key_of m \<in> S")
    case True
    then show ?thesis using Cons by (simp add: key_of_fold)
  next
    case False
    show ?thesis
    proof (cases "MAX_LINKS_PER_SITE \<le> length (acc @ [m])")
      case True
      with Cons.prems have "MAX_LINKS_PER_SITE - length acc = Suc 0" by simp
      with True False Cons.prems show ?thesis by (simp add: key_of_fold)
    next
      case ge: False
      then have "length (acc @ [m]) < MAX_LINKS_PER_SITE" by simp
      then have "dedupe_loop ms (insert (key_of m) S) (acc @ [m])
          = take MAX_LINKS_PER_SITE
              ((acc @ [m]) @ dedupe_first (filter (\<lambda>x. key_of x \<notin> insert (key_of m) S) ms))"
        by (rule Cons.IH)
      moreover have "filter (\<lambda>x. key_of x \<notin> insert (key_of m) S) ms
          = filter (\<lambda>x. key_of x \<noteq> key_of m) (filter (\<lambda>x. key_of x \<notin> S) ms)"
        by (simp only: filter_key_insert)
      ultimately show ?thesis using False ge by (simp add: key_of_fold del: filter_filter)
    qed
  qed
qed

lemma dedupe_loop_output: "dedupe_loop ms {} [] = take 200 (dedupe_first ms)"
  using dedupe_loop_spec [of "[]" ms "{}"] by (simp add: MAX_LINKS_PER_SITE_def)

lemma set_dedupe_first: "set (dedupe_first ms) = set ms"
proof (induction ms rule: dedupe_first.induct)
  case 1
  show ?case by simp
next
  case (2 m ms)
  then show ?case by (auto dest: key_of_inject)
qed

lemma distinct_dedupe_first: "distinct (map key_of (dedupe_first ms))"
proof (induction ms rule: dedupe_first.induct)
  case 1
  show ?case by simp
next
  case (2 m ms)
  have "key_of m \<notin> key_of ` set (filter (\<lambda>x. key_of x \<noteq> key_of m) ms)" by auto
  with 2 show ?case by (simp add: set_dedupe_first del: set_filter)
qed

lemma dedupe_first_distinct: "distinct (map key_of ms) \<Longrightarrow> dedupe_first ms = ms"
proof (induction ms)
  case Nil
  show ?case by simp
next
  case (Cons m ms)
  then have "\<forall>x\<in>set ms. key_of x \<noteq> key_of m"
    by (fastforce simp: image_iff)
  then have "filter (\<lambda>x. key_of x \<noteq> key_of m) ms = ms"
    by (simp add: filter_id_conv)
  with Cons show ?case by simp
qed

text \<open>The same list by the library's \<open>remdups\<close>, which keeps last occurrences.\<close>

lemma filter_swap: "filter P (filter Q xs) = filter Q (filter P xs)"
  by (induction xs) simp_all

lemma filter_key_neq: "filter (\<lambda>x. key_of x \<noteq> key_of m) xs = filter (\<lambda>x. x \<noteq> m) xs"
proof (induction xs)
  case Nil
  show ?case by simp
next
  case (Cons x xs)
  have "(key_of x = key_of m) = (x = m)" using key_of_inject [of x m] by blast
  with Cons show ?case by simp
qed

lemma dedupe_first_filter:
  "dedupe_first (filter (\<lambda>x. x \<noteq> k) ms) = filter (\<lambda>x. x \<noteq> k) (dedupe_first ms)"
proof (induction ms rule: dedupe_first.induct)
  case 1
  show ?case by simp
next
  case (2 m ms)
  have ih: "dedupe_first (filter (\<lambda>x. x \<noteq> k) (filter (\<lambda>x. key_of x \<noteq> key_of m) ms))
      = filter (\<lambda>x. x \<noteq> k) (dedupe_first (filter (\<lambda>x. key_of x \<noteq> key_of m) ms))"
    by (rule 2)
  show ?case
  proof (cases "m = k")
    case True
    have "dedupe_first (filter (\<lambda>x. x \<noteq> k) (m # ms)) = dedupe_first (filter (\<lambda>x. x \<noteq> m) ms)"
      using True by simp
    also have "\<dots> = dedupe_first (filter (\<lambda>x. x \<noteq> k) (filter (\<lambda>x. key_of x \<noteq> key_of m) ms))"
      unfolding filter_key_neq using True by simp
    also note ih
    finally show ?thesis using True by simp
  next
    case False
    have "dedupe_first (filter (\<lambda>x. x \<noteq> k) (m # ms))
        = m # dedupe_first (filter (\<lambda>x. key_of x \<noteq> key_of m) (filter (\<lambda>x. x \<noteq> k) ms))"
      using False by simp
    also have "filter (\<lambda>x. key_of x \<noteq> key_of m) (filter (\<lambda>x. x \<noteq> k) ms)
        = filter (\<lambda>x. x \<noteq> k) (filter (\<lambda>x. key_of x \<noteq> key_of m) ms)"
      by (rule filter_swap)
    also note ih
    finally show ?thesis using False by simp
  qed
qed

lemma remdups_snoc: "remdups (xs @ [m]) = filter (\<lambda>x. x \<noteq> m) (remdups xs) @ [m]"
  by (induction xs) auto

lemma dedupe_first_remdups: "dedupe_first ms = rev (remdups (rev ms))"
proof (induction ms)
  case Nil
  show ?case by simp
next
  case (Cons m ms)
  have "dedupe_first (m # ms) = m # dedupe_first (filter (\<lambda>x. x \<noteq> m) ms)"
    by (simp add: filter_key_neq)
  also have "\<dots> = m # filter (\<lambda>x. x \<noteq> m) (dedupe_first ms)"
    by (simp only: dedupe_first_filter)
  also have "\<dots> = m # filter (\<lambda>x. x \<noteq> m) (rev (remdups (rev ms)))"
    by (simp only: Cons)
  also have "\<dots> = rev (remdups (rev (m # ms)))"
    by (simp add: remdups_snoc rev_filter)
  finally show ?case .
qed

section \<open>Facts about the extractor\<close>

lemma is_anchor_href: "is_anchor c \<Longrightarrow> \<exists>h. href_of c = Some h"
  by (cases c) auto

lemma find_all_a_href: "(a, p) \<in> set (find_all_a n) \<Longrightarrow> \<exists>h. href_of a = Some h"
proof (induction n rule: find_all_a.induct)
  case (1 n as cs)
  then show ?case by (auto dest: is_anchor_href split: if_splits)
qed simp_all

lemma loop_body_spec:
  "href_of a = Some h \<Longrightarrow>
   loop_body L base (a, p) ms =
     (if matched (a, p)
      then (case candidate_of L base a of Inl e \<Rightarrow> Inl e | Inr c \<Rightarrow> Inr (ms @ [c]))
      else Inr ms)"
  by (simp add: matched_def rule_A_def rule_B_def candidate_of_def append_match_def
      split: option.splits sum.splits)

lemma match_loop_spec:
  "\<forall>ap\<in>set aps. \<exists>h. href_of (fst ap) = Some h \<Longrightarrow>
   match_loop L base aps ms = Inr ms' \<Longrightarrow>
   map Inr ms' = map Inr ms @ map (\<lambda>ap. candidate_of L base (fst ap)) (filter matched aps)"
proof (induction aps arbitrary: ms)
  case Nil
  then show ?case by simp
next
  case (Cons ap aps)
  obtain a p where ap: "ap = (a, p)" by (cases ap)
  from Cons.prems(1) ap obtain h where h: "href_of a = Some h" by auto
  from Cons.prems(2) obtain ms1 where
    b: "loop_body L base (a, p) ms = Inr ms1" and r: "match_loop L base aps ms1 = Inr ms'"
    by (auto simp: ap split: sum.splits)
  from b have e: "(if matched (a, p)
      then (case candidate_of L base a of Inl e \<Rightarrow> Inl e | Inr c \<Rightarrow> Inr (ms @ [c]))
      else Inr ms) = Inr ms1"
    unfolding loop_body_spec [OF h] .
  from Cons.prems(1) have "\<forall>ap\<in>set aps. \<exists>h. href_of (fst ap) = Some h" by simp
  from Cons.IH [OF this r]
  have ih: "map Inr ms' = map Inr ms1 @ map (\<lambda>ap. candidate_of L base (fst ap)) (filter matched aps)" .
  show ?case
  proof (cases "matched (a, p)")
    case True
    with e obtain c where "candidate_of L base a = Inr c" "ms1 = ms @ [c]"
      by (auto split: sum.splits)
    with ih True show ?thesis by (simp add: ap)
  next
    case False
    with e have "ms1 = ms" by simp
    with ih False show ?thesis by (simp add: ap)
  qed
qed

lemma raw_matches_spec:
  assumes "html_parser L h = Inr soup" and "raw_matches L h b = Inr ms"
  shows "map Inr ms = map (\<lambda>ap. candidate_of L b (fst ap)) (filter matched (find_all_a soup))"
proof -
  from assms have "match_loop L b (find_all_a soup) [] = Inr ms"
    by (simp add: raw_matches_def)
  moreover have "\<forall>ap\<in>set (find_all_a soup). \<exists>h. href_of (fst ap) = Some h"
    using find_all_a_href by fastforce
  ultimately show ?thesis using match_loop_spec [of "find_all_a soup" L b "[]" ms] by simp
qed

lemma extractor_output:
  "find_php_links_on_html L h b = Inr out \<Longrightarrow>
   \<exists>ms. raw_matches L h b = Inr ms \<and> out = dedupe_loop ms {} []"
  by (auto simp: find_php_links_on_html_def split: sum.splits)

lemma candidate_in_matches:
  assumes "html_parser L h = Inr soup" and "raw_matches L h b = Inr ms"
    and "(a, p) \<in> set (find_all_a soup)" and "matched (a, p)"
  shows "\<exists>c. candidate_of L b a = Inr c \<and> c \<in> set ms"
proof -
  from assms(3,4) have "candidate_of L b a
      \<in> set (map (\<lambda>ap. candidate_of L b (fst ap)) (filter matched (find_all_a soup)))"
    by force
  with raw_matches_spec [OF assms(1,2)] have "candidate_of L b a \<in> set (map Inr ms)"
    by simp
  then show ?thesis by auto
qed

lemma short_output_complete:
  assumes "find_php_links_on_html L h b = Inr out" and "length out < 200"
    and "raw_matches L h b = Inr ms"
  shows "set out = set ms"
proof -
  from assms(1,3) have out: "out = take 200 (dedupe_first ms)"
    by (simp add: find_php_links_on_html_def dedupe_loop_output)
  with assms(2) have "length (dedupe_first ms) < 200" by simp
  with out have "out = dedupe_first ms" by simp
  then show ?thesis by (simp add: set_dedupe_first)
qed

lemma bare_candidate:
  "href_of a = Some [] \<Longrightarrow> get_text '' '' a = [] \<Longrightarrow>
   candidate_of L b a = Inr \<lparr>title = [], url = b\<rparr>"
  by (simp add: candidate_of_def urljoin_def unescape_def)

section \<open>Facts about the runner\<close>

lemma fetch_failure_no_links: "requests_get L i u = Inl e \<Longrightarrow> scrape_site L i u = Inr []"
  by (simp add: scrape_site_def fetch_page_def)

lemma site_ok_step:
  assumes "site_ok L (i, site)"
  shows "sites_loop L i (site # rest) n g
       = sites_loop L (Suc i) rest (n + length (site_links L (i, site)))
           (g\<lparr>fetched := fetched g @ [norm_site L site],
              rows := rows g @ add_results (norm_site L site) (site_links L (i, site))\<rparr>)"
proof -
  from assms obtain scheme where s: "urlparse_scheme L site = Inr scheme"
    by (auto simp: site_ok_def split: sum.splits)
  then have n: "norm_site L site = (if scheme = [] then ''https://'' @ site else site)"
    by (simp add: norm_site_def)
  have "scrape_site L i (norm_site L site) = Inr (site_links L (i, site))"
  proof (cases "fetch_page L i (norm_site L site)")
    case None
    then show ?thesis by (simp add: site_links_def scrape_site_def)
  next
    case (Some html_text)
    with assms s show ?thesis
      by (simp add: site_ok_def site_links_def split: sum.splits)
  qed
  with s n show ?thesis by (simp add: Let_def)
qed

lemma sites_loop_append:
  "list_all (site_ok L) (enumerate i pre) \<Longrightarrow>
   sites_loop L i (pre @ rest) n g
     = sites_loop L (i + length pre) rest
         (n + sum_list (map (\<lambda>p. length (site_links L p)) (enumerate i pre)))
         (g\<lparr>fetched := fetched g @ map (norm_site L) pre,
            rows := rows g @ concat (map (\<lambda>p. add_results (norm_site L (snd p)) (site_links L p))
                                      (enumerate i pre))\<rparr>)"
proof (induction pre arbitrary: i n g)
  case Nil
  show ?case by simp
next
  case (Cons site pre)
  from Cons.prems have ok: "site_ok L (i, site)" and rest: "list_all (site_ok L) (enumerate (Suc i) pre)"
    by simp_all
  show ?case
    by (simp add: site_ok_step [OF ok] Cons.IH [OF rest] add.assoc del: sites_loop.simps)
qed

lemma sites_loop_ok:
  "list_all (site_ok L) (enumerate i sites) \<Longrightarrow>
   sites_loop L i sites n g
     = g\<lparr>fetched := fetched g @ map (norm_site L) sites,
          rows := rows g @ concat (map (\<lambda>p. add_results (norm_site L (snd p)) (site_links L p))
                                    (enumerate i sites)),
          status := Done (n + sum_list (map (\<lambda>p. length (site_links L p)) (enumerate i sites)))\<rparr>"
  using sites_loop_append [of L i sites "[]" n g] by simp

lemma sites_loop_warned: "warned (sites_loop L i sites n g) = warned g"
  by (induction sites arbitrary: i n g) (auto simp: Let_def split: sum.splits)


lemma fetch_none_ok:
  "urlparse_scheme L site = Inr scheme \<Longrightarrow> fetch_page L i (norm_site L site) = None \<Longrightarrow>
   site_ok L (i, site)"
  by (simp add: site_ok_def)

lemma fetch_none_links: "fetch_page L (fst p) (norm_site L (snd p)) = None \<Longrightarrow> site_links L p = []"
  by (simp add: site_links_def)

lemma run_ok:
  assumes "sites \<noteq> []" and "list_all (site_ok L) (enumerate 1 sites)"
  shows "scrape_and_display L sites g
       = \<lparr>rows = concat (map (\<lambda>p. add_results (norm_site L (snd p)) (site_links L p))
                           (enumerate 1 sites)),
          status = Done (sum_list (map (\<lambda>p. length (site_links L p)) (enumerate 1 sites))),
          fetched = map (norm_site L) sites, warned = False, raised = None\<rparr>"
  using assms(1) sites_loop_ok [OF assms(2)] by (simp add: scrape_and_display_def)

lemma extraction_exception_passes:
  assumes "fetch_page L i u = Some html_text" and "html_text \<noteq> []"
    and "find_php_links_on_html L html_text u = Inl e"
  shows "scrape_site L i u = Inl e"
  using assms by (simp add: scrape_site_def)

lemma raising_site_step:
  assumes "urlparse_scheme L site = Inr scheme"
    and "scrape_site L i (norm_site L site) = Inl e"
  shows "sites_loop L i (site # rest) n g
       = g\<lparr>fetched := fetched g @ [norm_site L site], raised := Some e\<rparr>"
proof -
  from assms(1) have "norm_site L site = (if scheme = [] then ''https://'' @ site else site)"
    by (simp add: norm_site_def)
  with assms show ?thesis by (simp add: Let_def)
qed

section \<open>The example page, evaluated\<close>

lemma example_parse: "html_parser py example_page = Inr example_soup"
  by (simp add: py_def plain_html_parser_def example_page_def example_soup_def tag_token_def
      data_token_def lower_def lower_char_def isspace_def strip_def)

lemma example_anchors:
  "find_all_a example_soup =
     [(Tag ''a'' [(''href'', ''/job/1'')] [NavigableString ''Senior PHP Developer''], Some example_soup),
      (Tag ''a'' [(''href'', ''/job/2'')] [NavigableString ''Designer''], Some example_soup)]"
  by (simp add: example_soup_def)

lemma example_text_1:
  "get_text '' '' (Tag ''a'' [(''href'', ''/job/1'')] [NavigableString ''Senior PHP Developer''])
     = ''Senior PHP Developer''"
  by (simp add: get_text_def strip_def isspace_def)

lemma example_text_2:
  "get_text '' '' (Tag ''a'' [(''href'', ''/job/2'')] [NavigableString ''Designer'']) = ''Designer''"
  by (simp add: get_text_def strip_def isspace_def)

lemma example_text_root: "get_text '' '' example_soup = ''Senior PHP Developer Designer''"
  by (simp add: get_text_def strip_def isspace_def example_soup_def)

lemma lower_1: "lower ''Senior PHP Developer'' = ''senior php developer''"
  by (simp add: lower_def lower_char_def char_of_eq_iff)

lemma lower_root: "lower ''Senior PHP Developer Designer'' = ''senior php developer designer''"
  by (simp add: lower_def lower_char_def char_of_eq_iff)

lemma lower_2: "lower ''Designer'' = ''designer''"
  by (simp add: lower_def lower_char_def char_of_eq_iff)

lemma lower_hrefs: "lower ''/job/1'' = ''/job/1''" "lower ''/job/2'' = ''/job/2''"
  by (simp_all add: lower_def lower_char_def char_of_eq_iff)

lemma example_joins:
  "urljoin py ''https://jobs.test'' ''/job/1'' = Inr ''https://jobs.test/job/1''"
  "urljoin py ''https://jobs.test'' ''/job/2'' = Inr ''https://jobs.test/job/2''"
  by (simp_all add: urljoin_def py_def resolve_abs_path_def origin_def)

lemma example_raw_matches:
  "raw_matches py example_page ''https://jobs.test'' = Inr [php_job, designer_job]"
  by (simp add: raw_matches_def example_parse example_anchors example_text_1 example_text_2
      example_text_root lower_1 lower_2 lower_root lower_hrefs append_match_def example_joins
      unescape_def php_job_def designer_job_def)

lemma example_links:
  "find_php_links_on_html py example_page ''https://jobs.test'' = Inr [php_job, designer_job]"
  by (simp add: find_php_links_on_html_def example_raw_matches dedupe_loop_output
      php_job_def designer_job_def key_of_def)

section \<open>The page of 201 anchors, evaluated\<close>

lemma x_not_space: "\<not> isspace (CHR ''x'')"
  by (simp add: isspace_def)

lemma strip_xs: "strip (replicate (Suc i) (CHR ''x'')) = replicate (Suc i) (CHR ''x'')"
proof -
  have d: "dropWhile isspace (replicate (Suc i) (CHR ''x'')) = replicate (Suc i) (CHR ''x'')"
    by (simp add: x_not_space)
  show ?thesis unfolding strip_def d rev_replicate d ..
qed

lemma tokenize_text_xs:
  "tokenize False buf (replicate n (CHR ''x'') @ rest)
     = tokenize False (buf @ replicate n (CHR ''x'')) rest"
proof (induction n arbitrary: buf)
  case 0
  show ?case by simp
next
  case (Suc n)
  have "replicate n (CHR ''x'') @ [CHR ''x''] = CHR ''x'' # replicate n (CHR ''x'')"
    by (simp add: replicate_append_same)
  with Suc [of "buf @ [CHR ''x'']"] show ?case by simp
qed

lemma tokenize_anchor:
  "tokenize False [] (anchor_html i @ rest)
     = [StartTag ''a'' [(''href'', ''/php'')], Data (replicate (Suc i) (CHR ''x'')), EndTag ''a'']
       @ tokenize False [] rest"
proof -
  have open_tag: \<open>tokenize False [] (''<a href="/php">'' @ r)
      = StartTag ''a'' [(''href'', ''/php'')] # tokenize False [] r\<close> for r
    by (simp add: tag_token_def data_token_def lower_def lower_char_def isspace_def)
  have close_tag: "tokenize False buf (''</a>'' @ r) = data_token buf @ EndTag ''a'' # tokenize False [] r"
    for buf r
    by (simp add: tag_token_def lower_def lower_char_def isspace_def strip_def)
  have "tokenize False [] (anchor_html i @ rest)
      = StartTag ''a'' [(''href'', ''/php'')]
        # tokenize False [] (replicate (Suc i) (CHR ''x'') @ ''</a>'' @ rest)"
    unfolding anchor_html_def append_assoc by (rule open_tag)
  also have "tokenize False [] (replicate (Suc i) (CHR ''x'') @ ''</a>'' @ rest)
      = tokenize False (replicate (Suc i) (CHR ''x'')) (''</a>'' @ rest)"
    using tokenize_text_xs [of "[]" "Suc i" "''</a>'' @ rest"] by simp
  also have "\<dots> = data_token (replicate (Suc i) (CHR ''x'')) @ EndTag ''a'' # tokenize False [] rest"
    by (rule close_tag)
  finally show ?thesis by (simp add: data_token_def)
qed

lemma tokenize_anchors:
  "tokenize False [] (concat (map anchor_html is) @ rest)
     = concat (map (\<lambda>i. [StartTag ''a'' [(''href'', ''/php'')],
                           Data (replicate (Suc i) (CHR ''x'')), EndTag ''a'']) is)
       @ tokenize False [] rest"
proof (induction "is")
  case Nil
  show ?case by simp
next
  case (Cons i "is")
  have "tokenize False [] (concat (map anchor_html (i # is)) @ rest)
      = tokenize False [] (anchor_html i @ (concat (map anchor_html is) @ rest))"
    by simp
  also have "\<dots> = [StartTag ''a'' [(''href'', ''/php'')], Data (replicate (Suc i) (CHR ''x'')), EndTag ''a'']
       @ tokenize False [] (concat (map anchor_html is) @ rest)"
    by (rule tokenize_anchor)
  finally show ?case using Cons by simp
qed

lemma treebuild_anchors:
  "treebuild (concat (map (\<lambda>i. [StartTag ''a'' [(''href'', ''/php'')],
                           Data (replicate (Suc i) (CHR ''x'')), EndTag ''a'']) is) @ ts)
      [(''[document]'', [], cs)]
     = treebuild ts [(''[document]'', [], cs @ map anchor_node is)]"
proof (induction "is" arbitrary: cs)
  case Nil
  show ?case by simp
next
  case (Cons i "is")
  show ?case using Cons [of "cs @ [anchor_node i]"] by (simp add: anchor_node_def)
qed

lemma big_page_parse: "html_parser py big_page = Inr big_soup"
proof -
  have "tokenize False [] big_page
      = concat (map (\<lambda>i. [StartTag ''a'' [(''href'', ''/php'')],
                           Data (replicate (Suc i) (CHR ''x'')), EndTag ''a'']) [0..<201])"
    using tokenize_anchors [of "[0..<201]" "[]"] by (simp add: big_page_def data_token_def)
  moreover have "treebuild (concat (map (\<lambda>i. [StartTag ''a'' [(''href'', ''/php'')],
                           Data (replicate (Suc i) (CHR ''x'')), EndTag ''a'']) [0..<201]))
      [(''[document]'', [], [])] = big_soup"
    using treebuild_anchors [of "[0..<201]" "[]" "[]"] by (simp add: big_soup_def)
  ultimately show ?thesis by (simp add: py_def plain_html_parser_def)
qed

lemma anchors_of_anchor_nodes:
  "concat (map (\<lambda>c. (if is_anchor c then [(c, P)] else []) @ find_all_a c) (map anchor_node is))
     = map (\<lambda>i. (anchor_node i, P)) is"
  by (induction "is") (simp_all add: anchor_node_def)

lemma big_soup_anchors:
  "find_all_a big_soup = map (\<lambda>i. (anchor_node i, Some big_soup)) [0..<201]"
  unfolding big_soup_def find_all_a.simps by (rule anchors_of_anchor_nodes)

lemma anchor_node_text: "get_text '' '' (anchor_node i) = replicate (Suc i) (CHR ''x'')"
  using strip_xs [of i] by (simp add: get_text_def anchor_node_def)

lemma anchor_node_href: "href_of (anchor_node i) = Some ''/php''"
  by (simp add: anchor_node_def)

lemma lower_php_href: "lower ''/php'' = ''/php''"
  by (simp add: lower_def lower_char_def)

lemma anchor_node_rule_A: "rule_A (anchor_node i)"
  by (simp add: rule_A_def anchor_node_href lower_php_href)

lemma php_join: "urljoin py ''https://jobs.test'' ''/php'' = Inr ''https://jobs.test/php''"
  by (simp add: urljoin_def py_def resolve_abs_path_def origin_def)

lemma anchor_node_candidate:
  "candidate_of py ''https://jobs.test'' (anchor_node i) = Inr (nth_candidate i)"
  by (simp add: candidate_of_def anchor_node_href anchor_node_text php_join unescape_def
      nth_candidate_def)

lemma anchor_node_step:
  "loop_body py ''https://jobs.test'' (anchor_node i, p) ms = Inr (ms @ [nth_candidate i])"
  unfolding loop_body_spec [OF anchor_node_href]
  by (simp add: matched_def anchor_node_rule_A anchor_node_candidate)

lemma anchor_nodes_loop:
  "match_loop py ''https://jobs.test'' (map (\<lambda>i. (anchor_node i, p)) is) ms
     = Inr (ms @ map nth_candidate is)"
proof (induction "is" arbitrary: ms)
  case Nil
  show ?case by simp
next
  case (Cons i "is")
  show ?case
    by (simp add: anchor_node_step Cons del: loop_body.simps)
qed

lemma big_page_raw:
  "raw_matches py big_page ''https://jobs.test'' = Inr (map nth_candidate [0..<201])"
  by (simp add: raw_matches_def big_page_parse big_soup_anchors anchor_nodes_loop
      del: upt_Suc)

lemma nth_candidate_key_inj: "inj (\<lambda>i. key_of (nth_candidate i))"
proof (rule injI)
  fix i j
  assume "key_of (nth_candidate i) = key_of (nth_candidate j)"
  then have "replicate (Suc i) (CHR ''x'') = replicate (Suc j) (CHR ''x'')"
    by (simp add: key_of_def nth_candidate_def)
  then have "length (replicate (Suc i) (CHR ''x'')) = length (replicate (Suc j) (CHR ''x''))"
    by (rule arg_cong)
  then show "i = j" by simp
qed

lemma nth_candidates_distinct: "distinct (map key_of (map nth_candidate [0..<n]))"
  using nth_candidate_key_inj by (simp add: distinct_map inj_on_def inj_def comp_def)

lemma big_page_links:
  "find_php_links_on_html py big_page ''https://jobs.test'' = Inr (map nth_candidate [0..<200])"
proof -
  have "take 200 (map nth_candidate [0..<201]) = map nth_candidate [0..<200]"
    by (simp add: take_map del: upt_Suc)
  then show ?thesis
    by (simp add: find_php_links_on_html_def big_page_raw dedupe_loop_output
        dedupe_first_distinct [OF nth_candidates_distinct] del: upt_Suc)
qed

lemma last_candidate_cut: "nth_candidate 200 \<notin> set (map nth_candidate [0..<200])"
proof
  assume "nth_candidate 200 \<in> set (map nth_candidate [0..<200])"
  then obtain i where "i < 200" and "nth_candidate 200 = nth_candidate i" by auto
  then have "key_of (nth_candidate 200) = key_of (nth_candidate i)" by simp
  with nth_candidate_key_inj have "200 = i" by (simp add: inj_def)
  with \<open>i < 200\<close> show False by simp
qed

lemma last_anchor_found: "(anchor_node 200, Some big_soup) \<in> set (find_all_a big_soup)"
proof -
  have "(200::nat) \<in> set [0..<201]" by simp
  then have "(anchor_node 200, Some big_soup)
      \<in> (\<lambda>i. (anchor_node i, Some big_soup)) ` set [0..<201]"
    by (rule imageI)
  then show ?thesis unfolding big_soup_anchors set_map .
qed

section \<open>The other example pages and runs, evaluated\<close>

lemma bare_parse: "html_parser py bare_anchor_page = Inr bare_soup"
  by (simp add: py_def plain_html_parser_def bare_anchor_page_def bare_soup_def
      bare_paragraph_def bare_anchor_def tag_token_def data_token_def lower_def lower_char_def
      isspace_def strip_def)

lemma bare_anchors: "find_all_a bare_soup = [(bare_anchor, Some bare_paragraph)]"
  by (simp add: bare_soup_def bare_paragraph_def bare_anchor_def)

lemma bare_text: "get_text '' '' bare_anchor = []"
  by (simp add: get_text_def bare_anchor_def)

lemma bare_href: "href_of bare_anchor = Some []"
  by (simp add: bare_anchor_def)

lemma bare_paragraph_text: "get_text '' '' bare_paragraph = ''php''"
  by (simp add: get_text_def bare_paragraph_def bare_anchor_def strip_def isspace_def)

lemma lower_php: "lower ''php'' = ''php''"
  by (simp add: lower_def lower_char_def)

lemma bare_matched: "matched (bare_anchor, Some bare_paragraph)"
  by (simp add: matched_def rule_B_def bare_paragraph_text lower_php)

lemma bare_raw:
  "raw_matches py bare_anchor_page ''https://jobs.test''
     = Inr [\<lparr>title = [], url = ''https://jobs.test''\<rparr>]"
  by (simp add: raw_matches_def bare_parse bare_anchors loop_body_spec [OF bare_href]
      bare_matched bare_candidate [OF bare_href bare_text] del: loop_body.simps)

lemma bare_links:
  "find_php_links_on_html py bare_anchor_page ''https://jobs.test''
     = Inr [\<lparr>title = [], url = ''https://jobs.test''\<rparr>]"
  by (simp add: find_php_links_on_html_def bare_raw dedupe_loop_output)

lemma scheme_down: "urlparse_scheme py ''down.test'' = Inr []"
  by (simp add: py_def split_scheme_def)

lemma scheme_jobs: "urlparse_scheme py ''jobs.test'' = Inr []"
  by (simp add: py_def split_scheme_def)

lemma scheme_example_com: "urlparse_scheme py ''example.com/php'' = Inr []"
  by (simp add: py_def split_scheme_def)

lemma fetch_down: "fetch_page py i ''https://down.test'' = None"
  by (simp add: fetch_page_def py_def example_net_def)

lemma fetch_example_com: "fetch_page py i ''https://example.com/php'' = None"
  by (simp add: fetch_page_def py_def example_net_def)

lemma fetch_jobs: "fetch_page py i ''https://jobs.test'' = Some example_page"
  by (simp add: fetch_page_def py_def example_net_def)

lemma example_page_not_empty: "example_page \<noteq> []"
  by (simp add: example_page_def)

lemma scrape_jobs: "scrape_site py i ''https://jobs.test'' = Inr [php_job, designer_job]"
  by (simp add: scrape_site_def fetch_jobs example_page_not_empty example_links)

lemma ok_down: "site_ok py (i, ''down.test'')"
  by (simp add: site_ok_def norm_site_def scheme_down fetch_down)

lemma ok_jobs: "site_ok py (i, ''jobs.test'')"
  by (simp add: site_ok_def norm_site_def scheme_jobs fetch_jobs scrape_jobs)

lemma links_down: "site_links py (i, ''down.test'') = []"
  by (simp add: site_links_def norm_site_def scheme_down fetch_down)

lemma links_jobs: "site_links py (i, ''jobs.test'') = [php_job, designer_job]"
  by (simp add: site_links_def norm_site_def scheme_jobs fetch_jobs scrape_jobs)

lemma enumerate_two: "enumerate 1 [a, b] = [(1, a), (2, b)]"
  by (simp add: enumerate_eq_zip)

lemma example_com_run:
  "scrape_and_display py [''example.com/php''] idle
     = \<lparr>rows = [], status = Done 0, fetched = [''https://example.com/php''],
        warned = False, raised = None\<rparr>"
  by (simp add: scrape_and_display_def scheme_example_com scrape_site_def fetch_example_com
      add_results_def)

lemma scheme_a: "urlparse_scheme py_rejecting ''a.test'' = Inr []"
  by (simp add: py_rejecting_def py_def split_scheme_def)

lemma scheme_down_r: "urlparse_scheme py_rejecting ''down.test'' = Inr []"
  by (simp add: py_rejecting_def py_def split_scheme_def)

lemma fetch_a: "fetch_page py_rejecting i ''https://a.test'' = Some ''<![x y]>''"
  by (simp add: fetch_page_def py_rejecting_def rejected_net_def)

lemma fetch_down_r: "fetch_page py_rejecting i ''https://down.test'' = None"
  by (simp add: fetch_page_def py_rejecting_def rejected_net_def)

lemma links_down_r: "site_links py_rejecting (i, ''down.test'') = []"
  by (simp add: site_links_def norm_site_def scheme_down_r fetch_down_r)

lemma extract_a:
  "find_php_links_on_html py_rejecting ''<![x y]>'' ''https://a.test'' = Inl ParserError"
  by (simp add: find_php_links_on_html_def raw_matches_def py_rejecting_def rejecting_parser_def)

lemma scrape_a: "scrape_site py_rejecting i ''https://a.test'' = Inl ParserError"
  by (simp add: scrape_site_def fetch_a extract_a)

lemma scrape_down_r: "scrape_site py_rejecting i ''https://down.test'' = Inr []"
  by (simp add: scrape_site_def fetch_down_r)

lemma fetch_down_then_reject:
  "scrape_and_display py_rejecting [''down.test'', ''a.test''] idle
     = \<lparr>rows = [], status = Scraping, fetched = [''https://down.test'', ''https://a.test''],
        warned = False, raised = Some ParserError\<rparr>"
  by (simp add: scrape_and_display_def scheme_down_r scheme_a scrape_a scrape_down_r
      add_results_def)

section \<open>Which candidates survive the limit\<close>

lemma dedupe_first_Cons: "dedupe_first (m # ms) = m # dedupe_first (filter (\<lambda>x. x \<noteq> m) ms)"
  by (simp add: filter_key_neq)

lemma length_dedupe_first: "length (dedupe_first ms) = card (set ms)"
  by (simp add: dedupe_first_remdups length_remdups_card_conv)

lemma takeWhile_filter_neq:
  "m \<noteq> c \<Longrightarrow>
   takeWhile (\<lambda>x. x \<noteq> c) (filter (\<lambda>x. x \<noteq> m) xs)
     = filter (\<lambda>x. x \<noteq> m) (takeWhile (\<lambda>x. x \<noteq> c) xs)"
  by (induction xs) auto

lemma dedupe_first_split:
  "c \<in> set ms \<Longrightarrow>
   \<exists>rest. dedupe_first ms = dedupe_first (takeWhile (\<lambda>x. x \<noteq> c) ms) @ c # rest"
proof (induction ms rule: dedupe_first.induct)
  case 1
  then show ?case by simp
next
  case (2 m ms)
  show ?case
  proof (cases "m = c")
    case True
    then show ?thesis by simp
  next
    case False
    with "2.prems" have "c \<in> set (filter (\<lambda>x. key_of x \<noteq> key_of m) ms)"
      by (simp add: filter_key_neq)
    from "2.IH" [OF this] obtain rest where
      "dedupe_first (filter (\<lambda>x. key_of x \<noteq> key_of m) ms)
         = dedupe_first (takeWhile (\<lambda>x. x \<noteq> c) (filter (\<lambda>x. key_of x \<noteq> key_of m) ms)) @ c # rest"
      by blast
    then have "dedupe_first (filter (\<lambda>x. x \<noteq> m) ms)
         = dedupe_first (filter (\<lambda>x. x \<noteq> m) (takeWhile (\<lambda>x. x \<noteq> c) ms)) @ c # rest"
      by (simp only: filter_key_neq takeWhile_filter_neq [OF False])
    then have "dedupe_first (m # ms)
         = dedupe_first (takeWhile (\<lambda>x. x \<noteq> c) (m # ms)) @ c # rest"
      using False by (simp add: filter_key_neq)
    then show ?thesis by blast
  qed
qed

text \<open>A candidate of the list survives the cut exactly when fewer than \<open>n\<close> different
  candidates stand before its first occurrence.\<close>

lemma in_take_dedupe_first:
  assumes "c \<in> set ms"
  shows "(c \<in> set (take n (dedupe_first ms)))
       = (card (set (takeWhile (\<lambda>x. x \<noteq> c) ms)) < n)"
proof -
  define A where "A = dedupe_first (takeWhile (\<lambda>x. x \<noteq> c) ms)"
  from dedupe_first_split [OF assms] obtain rest where d: "dedupe_first ms = A @ c # rest"
    unfolding A_def by blast
  have lA: "length A = card (set (takeWhile (\<lambda>x. x \<noteq> c) ms))"
    by (simp add: A_def length_dedupe_first)
  have "set A = set (takeWhile (\<lambda>x. x \<noteq> c) ms)" by (simp add: A_def set_dedupe_first)
  then have nA: "c \<notin> set A" by (auto dest: set_takeWhileD)
  show ?thesis
  proof (cases "length A < n")
    case True
    then obtain k where "n - length A = Suc k" by (cases "n - length A") simp_all
    then have "take n (A @ c # rest) = A @ c # take k rest" by simp
    with True show ?thesis by (simp add: d lA [symmetric])
  next
    case False
    then have "take n (A @ c # rest) = take n A" by simp
    with nA have "c \<notin> set (take n (A @ c # rest))" by (auto dest: in_set_takeD)
    with False show ?thesis by (simp add: d lA [symmetric])
  qed
qed

lemma first_occurrence_early:
  assumes "c \<in> set (take n ms)"
  shows "card (set (takeWhile (\<lambda>x. x \<noteq> c) ms)) < n"
proof -
  from assms obtain i where i: "i < length (take n ms)" "take n ms ! i = c"
    by (auto simp: in_set_conv_nth)
  then have il: "i < length ms" "i < n" "ms ! i = c" by simp_all
  have "length (takeWhile (\<lambda>x. x \<noteq> c) ms) \<le> i"
  proof (rule ccontr)
    assume "\<not> length (takeWhile (\<lambda>x. x \<noteq> c) ms) \<le> i"
    then have l: "i < length (takeWhile (\<lambda>x. x \<noteq> c) ms)" by simp
    then have "takeWhile (\<lambda>x. x \<noteq> c) ms ! i = ms ! i" by (rule takeWhile_nth)
    moreover from l have "takeWhile (\<lambda>x. x \<noteq> c) ms ! i \<in> set (takeWhile (\<lambda>x. x \<noteq> c) ms)"
      by (rule nth_mem)
    ultimately have "ms ! i \<noteq> c" by (auto dest: set_takeWhileD)
    with il show False by simp
  qed
  moreover have "card (set (takeWhile (\<lambda>x. x \<noteq> c) ms)) \<le> length (takeWhile (\<lambda>x. x \<noteq> c) ms)"
    by (rule card_length)
  ultimately show ?thesis using il by simp
qed

lemma candidate_in_output:
  assumes "find_php_links_on_html L h b = Inr out" and "raw_matches L h b = Inr ms"
    and "c \<in> set ms"
  shows "(c \<in> set out) = (card (set (takeWhile (\<lambda>x. x \<noteq> c) ms)) < 200)"
proof -
  from assms(1,2) have "out = take 200 (dedupe_first ms)"
    by (simp add: find_php_links_on_html_def dedupe_loop_output)
  with in_take_dedupe_first [OF assms(3), of 200] show ?thesis by simp
qed

section \<open>The two readings of an anchor's text\<close>

lemma strip_empty: "(strip s = []) = (\<forall>c\<in>set s. isspace c)"
proof
  assume e: "strip s = []"
  then have "\<forall>c\<in>set (dropWhile isspace s). isspace c"
    by (simp add: strip_def dropWhile_eq_Nil_conv)
  moreover have "dropWhile isspace s \<noteq> [] \<Longrightarrow> \<not> isspace (hd (dropWhile isspace s))"
    by (rule hd_dropWhile)
  ultimately have "dropWhile isspace s = []"
    by (cases "dropWhile isspace s") auto
  then show "\<forall>c\<in>set s. isspace c" by (simp add: dropWhile_eq_Nil_conv)
next
  assume "\<forall>c\<in>set s. isspace c"
  then have d: "dropWhile isspace s = []" by (simp add: dropWhile_eq_Nil_conv)
  show "strip s = []" unfolding strip_def d by simp
qed

lemma all_strings_empty:
  "(all_strings el = []) = (\<forall>c\<in>set (concat (raw_strings el)). isspace c)"
proof (induction el rule: all_strings.induct)
  case (1 n as cs)
  then show ?case by (auto simp: concat_eq_Nil_conv)
next
  case (2 s)
  show ?case by (simp add: strip_empty)
next
  case (3 s)
  show ?case by simp
qed

lemma all_strings_nonempty: "x \<in> set (all_strings el) \<Longrightarrow> x \<noteq> []"
proof (induction el arbitrary: x rule: all_strings.induct)
  case (1 n as cs)
  then show ?case by auto
next
  case (2 s)
  then show ?case by (auto split: if_splits)
next
  case (3 s)
  then show ?case by simp
qed

lemma join_empty: "\<forall>x\<in>set xs. x \<noteq> [] \<Longrightarrow> (join sep xs = []) = (xs = [])"
  by (induction sep xs rule: join.induct) auto

lemma split_ws_nonempty: "x \<in> set (split_ws cur s) \<Longrightarrow> x \<noteq> []"
proof (induction s arbitrary: cur)
  case Nil
  then show ?case by (simp split: if_splits)
next
  case (Cons c cs)
  show ?case
  proof (cases "isspace c")
    case True
    with Cons.prems have "(x = cur \<and> cur \<noteq> []) \<or> x \<in> set (split_ws [] cs)"
      by (cases "cur = []") simp_all
    then show ?thesis using Cons.IH [of "[]"] by blast
  next
    case False
    with Cons.prems have "x \<in> set (split_ws (cur @ [c]) cs)" by simp
    then show ?thesis by (rule Cons.IH)
  qed
qed

lemma split_ws_empty: "(split_ws cur s = []) = (cur = [] \<and> (\<forall>c\<in>set s. isspace c))"
proof (induction s arbitrary: cur)
  case Nil
  show ?case by simp
next
  case (Cons c cs)
  show ?case
  proof (cases "isspace c")
    case True
    then show ?thesis using Cons.IH [of "[]"] by (cases "cur = []") simp_all
  next
    case False
    then show ?thesis using Cons.IH [of "cur @ [c]"] by simp
  qed
qed

text \<open>The two readings of an anchor's text agree on which anchors have none.\<close>

lemma visible_text_empty: "(visible_text el = []) = (get_text '' '' el = [])"
proof -
  have "(visible_text el = []) = (split_ws [] (concat (raw_strings el)) = [])"
    unfolding visible_text_def by (rule join_empty) (auto dest: split_ws_nonempty)
  also have "\<dots> = (all_strings el = [])"
    by (simp add: split_ws_empty all_strings_empty)
  also have "\<dots> = (get_text '' '' el = [])"
    unfolding get_text_def by (rule join_empty [symmetric]) (auto dest: all_strings_nonempty)
  finally show ?thesis .
qed

lemma split_parse: "html_parser py split_page = Inr split_soup"
  by (simp add: py_def plain_html_parser_def split_page_def split_soup_def split_anchor_def
      tag_token_def data_token_def lower_def lower_char_def isspace_def strip_def)

lemma split_anchors: "find_all_a split_soup = [(split_anchor, Some split_soup)]"
  by (simp add: split_soup_def split_anchor_def)

lemma split_visible: "visible_text split_anchor = ''php''"
  by (simp add: visible_text_def split_anchor_def isspace_def)

lemma split_text: "get_text '' '' split_anchor = ''p hp''"
  by (simp add: get_text_def split_anchor_def strip_def isspace_def)

lemma split_root_text: "get_text '' '' split_soup = ''p hp''"
  by (simp add: get_text_def split_soup_def split_anchor_def strip_def isspace_def)

lemma lower_split: "lower ''p hp'' = ''p hp''" "lower ''/job/1'' = ''/job/1''"
  by (simp_all add: lower_def lower_char_def)

lemma split_href: "href_of split_anchor = Some ''/job/1''"
  by (simp add: split_anchor_def)

lemma split_spec_rule_A: "spec_rule_A split_anchor"
  by (simp add: spec_rule_A_def split_visible lower_php)

lemma split_not_matched: "\<not> matched (split_anchor, Some split_soup)"
  by (simp add: matched_def rule_A_def rule_B_def split_text split_root_text split_href
      lower_split)

lemma split_links: "find_php_links_on_html py split_page ''https://jobs.test'' = Inr []"
  by (simp add: find_php_links_on_html_def raw_matches_def split_parse split_anchors
      loop_body_spec [OF split_href] split_not_matched del: loop_body.simps)

section \<open>The page with the bare anchor behind 200 others, evaluated\<close>

lemma match_loop_append:
  "match_loop L b (xs @ ys) ms
     = (case match_loop L b xs ms of Inl e \<Rightarrow> Inl e | Inr ms' \<Rightarrow> match_loop L b ys ms')"
proof (induction xs arbitrary: ms)
  case Nil
  show ?case by simp
next
  case (Cons x xs)
  show ?case by (cases "loop_body L b x ms") (simp_all add: Cons del: loop_body.simps)
qed

lemma bare_tokens:
  "tokenize False [] bare_anchor_page
     = [StartTag ''p'' [], Data ''php'', StartTag ''a'' [(''href'', [])], EndTag ''a'', EndTag ''p'']"
  by (simp add: bare_anchor_page_def tag_token_def data_token_def lower_def lower_char_def
      isspace_def strip_def)

lemma cut_page_parse: "html_parser py cut_page = Inr cut_soup"
proof -
  have "tokenize False [] cut_page
      = concat (map (\<lambda>i. [StartTag ''a'' [(''href'', ''/php'')],
                           Data (replicate (Suc i) (CHR ''x'')), EndTag ''a'']) [0..<200])
        @ [StartTag ''p'' [], Data ''php'', StartTag ''a'' [(''href'', [])], EndTag ''a'', EndTag ''p'']"
    unfolding cut_page_def tokenize_anchors bare_tokens ..
  moreover have "treebuild (concat (map (\<lambda>i. [StartTag ''a'' [(''href'', ''/php'')],
                           Data (replicate (Suc i) (CHR ''x'')), EndTag ''a'']) [0..<200])
        @ [StartTag ''p'' [], Data ''php'', StartTag ''a'' [(''href'', [])], EndTag ''a'', EndTag ''p''])
      [(''[document]'', [], [])] = cut_soup"
    unfolding treebuild_anchors
    by (simp add: cut_soup_def bare_paragraph_def bare_anchor_def del: upt_Suc)
  ultimately show ?thesis by (simp add: py_def plain_html_parser_def)
qed

lemma cut_soup_anchors:
  "find_all_a cut_soup
     = map (\<lambda>i. (anchor_node i, Some cut_soup)) [0..<200] @ [(bare_anchor, Some bare_paragraph)]"
proof -
  have b: "find_all_a bare_paragraph = [(bare_anchor, Some bare_paragraph)]"
    by (simp add: bare_paragraph_def bare_anchor_def)
  have n: "\<not> is_anchor bare_paragraph" by (simp add: bare_paragraph_def)
  show ?thesis
    unfolding cut_soup_def find_all_a.simps map_append concat_append anchors_of_anchor_nodes
    by (simp add: b n)
qed

lemma cut_page_raw:
  "raw_matches py cut_page ''https://jobs.test''
     = Inr (map nth_candidate [0..<200] @ [\<lparr>title = [], url = ''https://jobs.test''\<rparr>])"
  by (simp add: raw_matches_def cut_page_parse cut_soup_anchors match_loop_append
      anchor_nodes_loop loop_body_spec [OF bare_href] bare_matched
      bare_candidate [OF bare_href bare_text] del: upt_Suc loop_body.simps)

lemma bare_not_nth: "\<lparr>title = [], url = ''https://jobs.test''\<rparr> \<notin> set (map nth_candidate [0..<n])"
  by (auto simp: nth_candidate_def)

lemma cut_page_links:
  "find_php_links_on_html py cut_page ''https://jobs.test'' = Inr (map nth_candidate [0..<200])"
proof -
  have "distinct (map key_of (map nth_candidate [0..<200] @ [\<lparr>title = [], url = ''https://jobs.test''\<rparr>]))"
    using nth_candidates_distinct [of 200] by (auto simp: key_of_def nth_candidate_def)
  then have "dedupe_first (map nth_candidate [0..<200] @ [\<lparr>title = [], url = ''https://jobs.test''\<rparr>])
      = map nth_candidate [0..<200] @ [\<lparr>title = [], url = ''https://jobs.test''\<rparr>]"
    by (rule dedupe_first_distinct)
  then show ?thesis
    by (simp add: find_php_links_on_html_def cut_page_raw dedupe_loop_output del: upt_Suc)
qed

lemma cut_bare_found: "(bare_anchor, Some bare_paragraph) \<in> set (find_all_a cut_soup)"
  by (simp add: cut_soup_anchors)

section \<open>The runner and the network\<close>







lemma norm_site_net: "norm_site (L\<lparr>requests_get := N\<rparr>) s = norm_site L s"
  by (simp add: norm_site_def)














lemma bare_visible: "visible_text bare_anchor = []"
  by (simp add: visible_text_empty bare_text)

section \<open>The claims\<close>

text \<open>
  C1 (as amended). For the example page with the base \<open>https://jobs.test\<close> the
  extractor returns two candidates in document order, "Senior PHP Developer" at
  \<open>https://jobs.test/job/1\<close> and "Designer" at \<open>https://jobs.test/job/2\<close>. The second
  anchor fails rule A and passes rule B: its parent is the document itself, whose text
  holds the first anchor's "PHP".
\<close>

theorem example_page_two_candidates:
  "find_php_links_on_html py example_page ''https://jobs.test''
     = Inr [\<lparr>title = ''Senior PHP Developer'', url = ''https://jobs.test/job/1''\<rparr>,
            \<lparr>title = ''Designer'', url = ''https://jobs.test/job/2''\<rparr>]
   \<and> find_all_a example_soup
       = [(Tag ''a'' [(''href'', ''/job/1'')] [NavigableString ''Senior PHP Developer''],
           Some example_soup),
          (Tag ''a'' [(''href'', ''/job/2'')] [NavigableString ''Designer''], Some example_soup)]
   \<and> rule_A (Tag ''a'' [(''href'', ''/job/2'')] [NavigableString ''Designer'']) = False
   \<and> rule_B (Some example_soup) = True"
  using example_links example_anchors
  by (simp add: php_job_def designer_job_def rule_A_def rule_B_def example_text_2
      example_text_root lower_2 lower_root lower_hrefs)

text \<open>
  C1 as stated fails: the output for the example page is not the one-element list of
  the specification.
\<close>

theorem example_page_not_one_candidate:
  "find_php_links_on_html py example_page ''https://jobs.test''
     \<noteq> Inr [\<lparr>title = ''Senior PHP Developer'', url = ''https://jobs.test/job/1''\<rparr>]"
  using example_links by (simp add: php_job_def designer_job_def)

text \<open>
  C2 (as amended). An exception raised while extracting the links of a fetched page is
  not caught: it passes through \<open>scrape_site\<close> and ends the run at that site. The
  sites before it keep their rows, the site itself was requested, no later site is
  requested, and the status stays at "Scraping" with no final count.
\<close>

theorem extraction_exception_ends_run:
  assumes "list_all (site_ok L) (enumerate 1 pre)"
    and "urlparse_scheme L site = Inr scheme"
    and "fetch_page L (Suc (length pre)) (norm_site L site) = Some html_text"
    and "html_text \<noteq> []"
    and "find_php_links_on_html L html_text (norm_site L site) = Inl e"
  shows "scrape_site L (Suc (length pre)) (norm_site L site) = Inl e
       \<and> scrape_and_display L (pre @ site # post) g
           = \<lparr>rows = concat (map (\<lambda>p. add_results (norm_site L (snd p)) (site_links L p))
                               (enumerate 1 pre)),
              status = Scraping, fetched = map (norm_site L) (pre @ [site]),
              warned = False, raised = Some e\<rparr>"
proof -
  have s: "scrape_site L (Suc (length pre)) (norm_site L site) = Inl e"
    by (rule extraction_exception_passes [OF assms(3,4,5)])
  then have s': "scrape_site L (1 + length pre) (norm_site L site) = Inl e" by simp
  define g0 :: run where
    "g0 = \<lparr>rows = [], status = Scraping, fetched = [], warned = False, raised = None\<rparr>"
  define g1 where
    "g1 = g0\<lparr>fetched := fetched g0 @ map (norm_site L) pre,
            rows := rows g0 @ concat (map (\<lambda>p. add_results (norm_site L (snd p)) (site_links L p))
                                      (enumerate 1 pre))\<rparr>"
  have "scrape_and_display L (pre @ site # post) g = sites_loop L 1 (pre @ site # post) 0 g0"
    by (simp add: scrape_and_display_def g0_def)
  also have "\<dots> = sites_loop L (1 + length pre) (site # post)
      (0 + sum_list (map (\<lambda>p. length (site_links L p)) (enumerate 1 pre))) g1"
    unfolding g1_def by (rule sites_loop_append [OF assms(1)])
  also have "\<dots> = g1\<lparr>fetched := fetched g1 @ [norm_site L site], raised := Some e\<rparr>"
    by (rule raising_site_step [OF assms(2) s'])
  also have "\<dots> = \<lparr>rows = concat (map (\<lambda>p. add_results (norm_site L (snd p)) (site_links L p))
                               (enumerate 1 pre)),
              status = Scraping, fetched = map (norm_site L) (pre @ [site]),
              warned = False, raised = Some e\<rparr>"
    by (simp add: g1_def g0_def)
  finally show ?thesis using s by simp
qed

text \<open>
  The theorem at work: the first site is down, the parser rejects the page of the second,
  and the third is never requested.
\<close>

theorem extraction_exception_ends_run_witness:
  "scrape_site py_rejecting 2 ''https://a.test'' = Inl ParserError
   \<and> scrape_and_display py_rejecting [''down.test'', ''a.test'', ''jobs.test''] idle
       = \<lparr>rows = [], status = Scraping, fetched = [''https://down.test'', ''https://a.test''],
          warned = False, raised = Some ParserError\<rparr>"
proof -
  have ok: "list_all (site_ok py_rejecting) (enumerate 1 [''down.test''])"
    by (simp add: enumerate_eq_zip site_ok_def norm_site_def scheme_down_r fetch_down_r)
  have f: "fetch_page py_rejecting (Suc (length [''down.test''])) (norm_site py_rejecting ''a.test'')
      = Some ''<![x y]>''"
    by (simp add: norm_site_def scheme_a fetch_a)
  have ne: "''<![x y]>'' \<noteq> []" by simp
  have x: "find_php_links_on_html py_rejecting ''<![x y]>'' (norm_site py_rejecting ''a.test'')
      = Inl ParserError"
    by (simp add: norm_site_def scheme_a extract_a)
  from extraction_exception_ends_run [OF ok scheme_a f ne x, of "[''jobs.test'']" idle]
  show ?thesis
    by (simp add: norm_site_def scheme_a scheme_down_r enumerate_eq_zip links_down_r
        add_results_def numeral_2_eq_2)
qed

text \<open>
  C2 as stated fails: the parser raises on the page of the first site, and the run ends
  there with the exception, without a count and without a request to the second site.
\<close>

theorem parser_exception_ends_run:
  "find_php_links_on_html py_rejecting ''<![x y]>'' ''https://a.test'' = Inl ParserError
   \<and> scrape_and_display py_rejecting [''a.test'', ''jobs.test''] idle
       = \<lparr>rows = [], status = Scraping, fetched = [''https://a.test''],
          warned = False, raised = Some ParserError\<rparr>"
  by (simp add: extract_a scrape_and_display_def scheme_a scrape_a)

text \<open>
  C3 (as amended). If the keyword is, in any case, in the text of an anchor as
  \<open>get_text(" ", strip=True)\<close> gives it (its text nodes, each stripped, with a space
  between two of them) or in its href, then the anchor has a candidate in the raw match
  list, and whenever the extractor returns an output, that candidate is in it exactly
  when fewer than 200 different candidates stand before its first occurrence in the raw
  match list. So it is in the output when it is among the first 200 raw matches, and when
  the output has fewer than 200 entries, whatever else the page holds.
\<close>

theorem matched_by_rule_A_in_output:
  assumes "html_parser L h = Inr soup"
    and "(a, p) \<in> set (find_all_a soup)"
    and "rule_A a"
    and "find_php_links_on_html L h b = Inr out"
  shows "\<exists>c ms. candidate_of L b a = Inr c
           \<and> raw_matches L h b = Inr ms
           \<and> map Inr ms = map (\<lambda>ap. candidate_of L b (fst ap)) (filter matched (find_all_a soup))
           \<and> c \<in> set ms
           \<and> (c \<in> set out) = (card (set (takeWhile (\<lambda>m. m \<noteq> c) ms)) < 200)
           \<and> (c \<in> set (take 200 ms) \<longrightarrow> c \<in> set out)
           \<and> (length out < 200 \<longrightarrow> c \<in> set out)"
proof -
  from assms(4) obtain ms where ms: "raw_matches L h b = Inr ms"
    using extractor_output by blast
  from assms(3) have "matched (a, p)" by (simp add: matched_def)
  with candidate_in_matches [OF assms(1) ms assms(2)]
  obtain c where c: "candidate_of L b a = Inr c" "c \<in> set ms" by blast
  have iff: "(c \<in> set out) = (card (set (takeWhile (\<lambda>m. m \<noteq> c) ms)) < 200)"
    by (rule candidate_in_output [OF assms(4) ms c(2)])
  have early: "c \<in> set (take 200 ms) \<longrightarrow> c \<in> set out"
    using first_occurrence_early [of c 200 ms] iff by blast
  have short: "length out < 200 \<longrightarrow> c \<in> set out"
    using short_output_complete [OF assms(4) _ ms] c(2) by blast
  from c ms raw_matches_spec [OF assms(1) ms] iff early short show ?thesis by blast
qed

text \<open>The theorem at work on the first anchor of the example page.\<close>

theorem matched_by_rule_A_in_output_witness:
  "\<exists>c ms. candidate_of py ''https://jobs.test''
             (Tag ''a'' [(''href'', ''/job/1'')] [NavigableString ''Senior PHP Developer'']) = Inr c
           \<and> raw_matches py example_page ''https://jobs.test'' = Inr ms
           \<and> map Inr ms = map (\<lambda>ap. candidate_of py ''https://jobs.test'' (fst ap))
                             (filter matched (find_all_a example_soup))
           \<and> c \<in> set ms
           \<and> (c \<in> set [php_job, designer_job]) = (card (set (takeWhile (\<lambda>m. m \<noteq> c) ms)) < 200)
           \<and> (c \<in> set (take 200 ms) \<longrightarrow> c \<in> set [php_job, designer_job])
           \<and> (length [php_job, designer_job] < 200 \<longrightarrow> c \<in> set [php_job, designer_job])"
proof -
  have f: "(Tag ''a'' [(''href'', ''/job/1'')] [NavigableString ''Senior PHP Developer''],
         Some example_soup) \<in> set (find_all_a example_soup)"
    by (simp add: example_anchors)
  have r: "rule_A (Tag ''a'' [(''href'', ''/job/1'')] [NavigableString ''Senior PHP Developer''])"
    by (simp add: rule_A_def example_text_1 lower_1)
  show ?thesis
    by (rule matched_by_rule_A_in_output [OF example_parse f r example_links])
qed

text \<open>
  C3 as stated fails twice. The last anchor of the page of 201 anchors has the keyword in
  its href, and its candidate is not in the output, which holds the first 200. And the
  anchor that shows "php" across two elements has the keyword in its whitespace-normalised
  visible text, but \<open>get_text(" ", strip=True)\<close> reads "p hp" and the output is empty.
\<close>

theorem rule_A_anchor_cut_or_split:
  "html_parser py big_page = Inr big_soup
   \<and> (anchor_node 200, Some big_soup) \<in> set (find_all_a big_soup)
   \<and> rule_A (anchor_node 200)
   \<and> candidate_of py ''https://jobs.test'' (anchor_node 200) = Inr (nth_candidate 200)
   \<and> find_php_links_on_html py big_page ''https://jobs.test'' = Inr (map nth_candidate [0..<200])
   \<and> nth_candidate 200 \<notin> set (map nth_candidate [0..<200])
   \<and> html_parser py split_page = Inr split_soup
   \<and> find_all_a split_soup = [(split_anchor, Some split_soup)]
   \<and> visible_text split_anchor = ''php''
   \<and> spec_rule_A split_anchor
   \<and> get_text '' '' split_anchor = ''p hp''
   \<and> find_php_links_on_html py split_page ''https://jobs.test'' = Inr []"
  using big_page_parse last_anchor_found anchor_node_rule_A [of 200] anchor_node_candidate [of 200]
    big_page_links last_candidate_cut split_parse split_anchors split_visible split_spec_rule_A
    split_text split_links
  by (intro conjI)

text \<open>
  C4 (as amended). An anchor with an empty visible text and an empty href cannot pass
  rule A; when it passes rule B it has a candidate in the raw match list, whose title is
  empty and whose url is the base URL, and whenever the extractor returns an output,
  that candidate is in it exactly when fewer than 200 different candidates stand before
  its first occurrence in the raw match list. Title and url are equal only for an empty
  base URL; the runner's row for the candidate shows the url in place of the empty title.
\<close>

theorem bare_anchor_in_output:
  assumes "html_parser L h = Inr soup"
    and "(a, p) \<in> set (find_all_a soup)"
    and "visible_text a = []" and "href_of a = Some []"
    and "matched (a, p)"
    and "find_php_links_on_html L h b = Inr out"
  shows "\<not> rule_A a \<and> rule_B p
       \<and> (\<exists>ms. raw_matches L h b = Inr ms
              \<and> \<lparr>title = [], url = b\<rparr> \<in> set ms
              \<and> (\<lparr>title = [], url = b\<rparr> \<in> set out)
                  = (card (set (takeWhile (\<lambda>m. m \<noteq> \<lparr>title = [], url = b\<rparr>) ms)) < 200)
              \<and> (\<lparr>title = [], url = b\<rparr> \<in> set (take 200 ms) \<longrightarrow> \<lparr>title = [], url = b\<rparr> \<in> set out))
       \<and> (length out < 200 \<longrightarrow> \<lparr>title = [], url = b\<rparr> \<in> set out)
       \<and> (title \<lparr>title = [], url = b\<rparr> = url \<lparr>title = [], url = b\<rparr>) = (b = [])
       \<and> add_results site [\<lparr>title = [], url = b\<rparr>] = [(b, site, b)]"
proof -
  from assms(3) have t: "get_text '' '' a = []" by (simp add: visible_text_empty)
  with assms(4) have nA: "\<not> rule_A a" by (simp add: rule_A_def lower_def)
  with assms(5) have B: "rule_B p" by (simp add: matched_def)
  from assms(6) obtain ms where ms: "raw_matches L h b = Inr ms"
    using extractor_output by blast
  from candidate_in_matches [OF assms(1) ms assms(2,5)] bare_candidate [OF assms(4) t]
  have c: "\<lparr>title = [], url = b\<rparr> \<in> set ms" by simp
  have iff: "(\<lparr>title = [], url = b\<rparr> \<in> set out)
      = (card (set (takeWhile (\<lambda>m. m \<noteq> \<lparr>title = [], url = b\<rparr>) ms)) < 200)"
    by (rule candidate_in_output [OF assms(6) ms c])
  have early: "\<lparr>title = [], url = b\<rparr> \<in> set (take 200 ms) \<longrightarrow> \<lparr>title = [], url = b\<rparr> \<in> set out"
    using first_occurrence_early [of "\<lparr>title = [], url = b\<rparr>" 200 ms] iff by blast
  have short: "length out < 200 \<longrightarrow> \<lparr>title = [], url = b\<rparr> \<in> set out"
    using short_output_complete [OF assms(6) _ ms] c by blast
  have ex: "\<exists>ms. raw_matches L h b = Inr ms
              \<and> \<lparr>title = [], url = b\<rparr> \<in> set ms
              \<and> (\<lparr>title = [], url = b\<rparr> \<in> set out)
                  = (card (set (takeWhile (\<lambda>m. m \<noteq> \<lparr>title = [], url = b\<rparr>) ms)) < 200)
              \<and> (\<lparr>title = [], url = b\<rparr> \<in> set (take 200 ms) \<longrightarrow> \<lparr>title = [], url = b\<rparr> \<in> set out)"
    using ms c iff early by blast
  have tu: "(title \<lparr>title = [], url = b\<rparr> = url \<lparr>title = [], url = b\<rparr>) = (b = [])" by auto
  have ar: "add_results site [\<lparr>title = [], url = b\<rparr>] = [(b, site, b)]"
    by (simp add: add_results_def)
  from nA B ex short tu ar show ?thesis by (intro conjI)
qed

text \<open>The theorem at work on the page with the bare anchor.\<close>

theorem bare_anchor_in_output_witness:
  "\<not> rule_A bare_anchor \<and> rule_B (Some bare_paragraph)
   \<and> (\<exists>ms. raw_matches py bare_anchor_page ''https://jobs.test'' = Inr ms
          \<and> \<lparr>title = [], url = ''https://jobs.test''\<rparr> \<in> set ms
          \<and> (\<lparr>title = [], url = ''https://jobs.test''\<rparr> \<in> set [\<lparr>title = [], url = ''https://jobs.test''\<rparr>])
              = (card (set (takeWhile (\<lambda>m. m \<noteq> \<lparr>title = [], url = ''https://jobs.test''\<rparr>) ms)) < 200))
   \<and> \<lparr>title = [], url = ''https://jobs.test''\<rparr> \<in> set [\<lparr>title = [], url = ''https://jobs.test''\<rparr>]
   \<and> (title \<lparr>title = [], url = ''https://jobs.test''\<rparr>
        = url \<lparr>title = [], url = ''https://jobs.test''\<rparr>) = (''https://jobs.test'' = [])
   \<and> add_results ''https://jobs.test'' [\<lparr>title = [], url = ''https://jobs.test''\<rparr>]
       = [(''https://jobs.test'', ''https://jobs.test'', ''https://jobs.test'')]"
proof -
  have f: "(bare_anchor, Some bare_paragraph) \<in> set (find_all_a bare_soup)"
    by (simp add: bare_anchors)
  have l: "length [\<lparr>title = [], url = ''https://jobs.test''\<rparr>] < 200" by simp
  from bare_anchor_in_output [OF bare_parse f bare_visible bare_href bare_matched bare_links,
      of "''https://jobs.test''"] l
  show ?thesis by blast
qed

text \<open>
  C4 as stated fails twice. On the page with the bare anchor its candidate is in the
  output with an empty title and the base URL as url, which differ. And behind 200 other
  matched anchors the bare anchor is matched as before, but its candidate is not in the
  output, which holds the first 200.
\<close>

theorem bare_anchor_title_differs_or_cut:
  "html_parser py bare_anchor_page = Inr bare_soup
   \<and> find_all_a bare_soup = [(bare_anchor, Some bare_paragraph)]
   \<and> visible_text bare_anchor = [] \<and> href_of bare_anchor = Some []
   \<and> matched (bare_anchor, Some bare_paragraph)
   \<and> find_php_links_on_html py bare_anchor_page ''https://jobs.test''
       = Inr [\<lparr>title = [], url = ''https://jobs.test''\<rparr>]
   \<and> title \<lparr>title = [], url = ''https://jobs.test''\<rparr> \<noteq> url \<lparr>title = [], url = ''https://jobs.test''\<rparr>
   \<and> html_parser py cut_page = Inr cut_soup
   \<and> (bare_anchor, Some bare_paragraph) \<in> set (find_all_a cut_soup)
   \<and> candidate_of py ''https://jobs.test'' bare_anchor = Inr \<lparr>title = [], url = ''https://jobs.test''\<rparr>
   \<and> find_php_links_on_html py cut_page ''https://jobs.test'' = Inr (map nth_candidate [0..<200])
   \<and> \<lparr>title = [], url = ''https://jobs.test''\<rparr> \<notin> set (map nth_candidate [0..<200])"
proof -
  have "title \<lparr>title = [], url = ''https://jobs.test''\<rparr> \<noteq> url \<lparr>title = [], url = ''https://jobs.test''\<rparr>"
    by simp
  then show ?thesis
    using bare_parse bare_anchors bare_visible bare_href bare_matched bare_links cut_page_parse
      cut_bare_found bare_candidate [OF bare_href bare_text, of py "''https://jobs.test''"]
      cut_page_links bare_not_nth [of 200]
    by (intro conjI)
qed

text \<open>
  C5. The extractor's output is the raw match list deduplicated on \<open>(url, title)\<close>
  keeping first occurrences (\<open>dedupe_first\<close>, which is the library's \<open>remdups\<close> read
  from the front), cut to its first 200 entries, and an exception of the matching phase
  is the extractor's exception; an output has no two entries with the same
  \<open>(url, title)\<close> and at most 200 entries.
\<close>

theorem output_is_truncated_dedup:
  "find_php_links_on_html L h b
     = (case raw_matches L h b of
          Inl e \<Rightarrow> Inl e
        | Inr ms \<Rightarrow> Inr (take 200 (dedupe_first ms)))
   \<and> dedupe_first ms = rev (remdups (rev ms))
   \<and> (case find_php_links_on_html L h b of
          Inl e \<Rightarrow> True
        | Inr out \<Rightarrow> distinct (map key_of out) \<and> length out \<le> 200)"
proof -
  have "distinct (map key_of (take 200 (dedupe_first ms)))" for ms
    using distinct_dedupe_first [of ms] by (simp add: take_map [symmetric])
  then have "find_php_links_on_html L h b
     = (case raw_matches L h b of
          Inl e \<Rightarrow> Inl e
        | Inr ms \<Rightarrow> Inr (take 200 (dedupe_first ms)))
   \<and> (case find_php_links_on_html L h b of
          Inl e \<Rightarrow> True
        | Inr out \<Rightarrow> distinct (map key_of out) \<and> length out \<le> 200)"
    by (simp add: find_php_links_on_html_def dedupe_loop_output split: sum.splits)
  with dedupe_first_remdups [of ms] show ?thesis by blast
qed

text \<open>
  C6 (as amended). A failed request gives \<open>scrape_site\<close> no content and no links, and
  a site whose request fails raises nothing. When no iteration raises an exception
  outside the request, the run requests every site in order, completes, and reports as
  its final count the number of links of the sites whose fetch returned a page, which is
  also the number of rows; the count is 0 when every fetch fails.
\<close>

theorem fetch_failures_are_isolated:
  assumes "sites \<noteq> []" and "list_all (site_ok L) (enumerate 1 sites)"
  shows "status (scrape_and_display L sites g)
           = Done (sum_list (map (\<lambda>p. length (site_links L p)) (enumerate 1 sites)))
       \<and> status (scrape_and_display L sites g) = Done (length (rows (scrape_and_display L sites g)))
       \<and> raised (scrape_and_display L sites g) = None
       \<and> fetched (scrape_and_display L sites g) = map (norm_site L) sites
       \<and> rows (scrape_and_display L sites g)
           = concat (map (\<lambda>p. add_results (norm_site L (snd p)) (site_links L p))
                      (enumerate 1 sites))
       \<and> (\<forall>p\<in>set (enumerate 1 sites).
             fetch_page L (fst p) (norm_site L (snd p)) = None \<longrightarrow> site_links L p = [])
       \<and> ((\<forall>p\<in>set (enumerate 1 sites). fetch_page L (fst p) (norm_site L (snd p)) = None)
            \<longrightarrow> status (scrape_and_display L sites g) = Done 0)
       \<and> (requests_get L i u = Inl e \<longrightarrow> fetch_page L i u = None \<and> scrape_site L i u = Inr [])
       \<and> (urlparse_scheme L s = Inr scheme \<and> fetch_page L i (norm_site L s) = None
            \<longrightarrow> site_ok L (i, s))"
proof -
  have zero: "sum_list (map (\<lambda>p. length (site_links L p)) (enumerate 1 sites)) = 0"
    if "\<forall>p\<in>set (enumerate 1 sites). fetch_page L (fst p) (norm_site L (snd p)) = None"
    using that by (simp add: fetch_none_links)
  have len: "length (concat (map (\<lambda>p. add_results (norm_site L (snd p)) (site_links L p)) ps))
      = sum_list (map (\<lambda>p. length (site_links L p)) ps)" for ps
    by (induction ps) (simp_all add: add_results_def)
  show ?thesis
    unfolding run_ok [OF assms]
    by (simp add: zero len fetch_none_links fetch_none_ok fetch_failure_no_links fetch_page_def)
qed

text \<open>The theorem at work: the first site is down, the second serves the example page.\<close>

theorem fetch_failures_are_isolated_witness:
  "status (scrape_and_display py [''down.test'', ''jobs.test''] idle) = Done 2
   \<and> raised (scrape_and_display py [''down.test'', ''jobs.test''] idle) = None
   \<and> fetched (scrape_and_display py [''down.test'', ''jobs.test''] idle)
       = [''https://down.test'', ''https://jobs.test'']
   \<and> fetch_page py 1 ''https://down.test'' = None"
proof -
  have ne: "[''down.test'', ''jobs.test''] \<noteq> []" by simp
  have ok: "list_all (site_ok py) (enumerate 1 [''down.test'', ''jobs.test''])"
    by (simp add: enumerate_two ok_down ok_jobs)
  from fetch_failures_are_isolated [OF ne ok, of idle]
  have "status (scrape_and_display py [''down.test'', ''jobs.test''] idle)
           = Done (sum_list (map (\<lambda>p. length (site_links py p)) (enumerate 1 [''down.test'', ''jobs.test''])))"
    and "raised (scrape_and_display py [''down.test'', ''jobs.test''] idle) = None"
    and "fetched (scrape_and_display py [''down.test'', ''jobs.test''] idle)
           = map (norm_site py) [''down.test'', ''jobs.test'']"
    by blast+
  then show ?thesis
    by (simp add: enumerate_two links_down links_jobs norm_site_def scheme_down scheme_jobs
        fetch_down)
qed

text \<open>
  C6 as stated fails: the request to the first site fails, the parser raises on the page
  of the second, and the run ends without a final count.
\<close>

theorem fetch_failure_then_exception_no_count:
  "fetch_page py_rejecting 1 ''https://down.test'' = None
   \<and> scrape_and_display py_rejecting [''down.test'', ''a.test''] idle
       = \<lparr>rows = [], status = Scraping, fetched = [''https://down.test'', ''https://a.test''],
          warned = False, raised = Some ParserError\<rparr>"
  using fetch_down_r [of 1] fetch_down_then_reject by simp

text \<open>
  C7. With an empty site list the run shows the "No sites" warning, requests nothing and
  leaves the table and the status line as they were; the warning is shown for no other
  site list.
\<close>

theorem empty_site_list_warns:
  "scrape_and_display L [] g
     = \<lparr>rows = rows g, status = status g, fetched = [], warned = True, raised = None\<rparr>
   \<and> warned (scrape_and_display L sites g) = (sites = [])"
  by (simp add: scrape_and_display_def sites_loop_warned)




text \<open>
  C9. Rules A and B exclude each other in the loop, so the raw match list holds exactly
  one entry for every anchor that passes rule A or rule B, also for an anchor that
  passes both, and none for the others; the entries stand in the order in which
  \<open>find_all\<close> yields their anchors.
\<close>

theorem one_entry_per_matched_anchor:
  assumes "html_parser L h = Inr soup" and "raw_matches L h b = Inr ms"
  shows "map Inr ms = map (\<lambda>ap. candidate_of L b (fst ap)) (filter matched (find_all_a soup))
         \<and> length ms = length (filter matched (find_all_a soup))
         \<and> length ms \<le> length (find_all_a soup)"
proof -
  have e: "map Inr ms = map (\<lambda>ap. candidate_of L b (fst ap)) (filter matched (find_all_a soup))"
    by (rule raw_matches_spec [OF assms])
  then have "length (map Inr ms :: (error + candidate) list)
      = length (map (\<lambda>ap. candidate_of L b (fst ap)) (filter matched (find_all_a soup)))"
    by simp
  then have l: "length ms = length (filter matched (find_all_a soup))" by simp
  have "length (filter matched (find_all_a soup)) \<le> length (find_all_a soup)"
    by (rule length_filter_le)
  with e l show ?thesis by simp
qed

text \<open>
  On the example page the first anchor passes both rules (its own text and the
  document's text hold "PHP") and stands once in the raw match list.
\<close>

theorem one_entry_per_matched_anchor_witness:
  "map Inr [php_job, designer_job]
     = map (\<lambda>ap. candidate_of py ''https://jobs.test'' (fst ap))
         (filter matched (find_all_a example_soup))
   \<and> length [php_job, designer_job] = length (filter matched (find_all_a example_soup))
   \<and> length [php_job, designer_job] \<le> length (find_all_a example_soup)"
  using one_entry_per_matched_anchor [OF example_parse example_raw_matches] .

text \<open>
  C10. A request that succeeds with an empty body leaves \<open>scrape_site\<close> with the empty
  list, as a failed request does; the result does not depend on the parser or on the
  other libraries of the extractor, which is not called.
\<close>

theorem empty_body_is_fetch_failure:
  assumes "requests_get L i u = Inr []"
  shows "fetch_page L i u = Some []
       \<and> scrape_site L i u = Inr []
       \<and> scrape_site (L\<lparr>html_parser := p, resolve := r, charref_sub := c\<rparr>) i u = Inr []
       \<and> scrape_site (L\<lparr>requests_get := (\<lambda>i u. Inl e)\<rparr>) i u = scrape_site L i u"
  using assms by (simp add: scrape_site_def fetch_page_def)

text \<open>The theorem at work in the world where every body is empty.\<close>

theorem empty_body_is_fetch_failure_witness:
  "fetch_page py_empty_body 1 ''https://jobs.test'' = Some []
   \<and> scrape_site py_empty_body 1 ''https://jobs.test'' = Inr []
   \<and> scrape_site (py_empty_body\<lparr>html_parser := (\<lambda>s. Inl ParserError),
         resolve := (\<lambda>b r. Inl ValueError), charref_sub := (\<lambda>s. [])\<rparr>) 1 ''https://jobs.test''
       = Inr []
   \<and> scrape_site (py_empty_body\<lparr>requests_get := (\<lambda>i u. Inl RequestError)\<rparr>) 1 ''https://jobs.test''
       = scrape_site py_empty_body 1 ''https://jobs.test''"
proof -
  have "requests_get py_empty_body 1 ''https://jobs.test'' = Inr []"
    by (simp add: py_empty_body_def)
  then show ?thesis by (rule empty_body_is_fetch_failure)
qed

end
